theory Spec2Isabelle
  imports Main "HOL-Library.Sublist" "HOL-Library.AList"
begin

section \<open>Lexical path functions of the Go library (Unix)\<close>

text \<open>
  Go strings are byte strings; they are modelled as \<open>string\<close>.  The path functions
  below follow \<open>path\<close> and \<open>path/filepath\<close> on a Unix system, where the separator
  is \<open>/\<close> and there are no volume names.  A path is read as a list of elements, the
  pieces between separators.
\<close>

fun split_sep :: "string \<Rightarrow> string list" where
  "split_sep [] = [[]]"
| "split_sep (c # cs) =
     (if c = CHR ''/'' then [] # split_sep cs
      else (case split_sep cs of
              x # xs \<Rightarrow> (c # x) # xs
            | [] \<Rightarrow> [[c]]))"

fun join_sep :: "string list \<Rightarrow> string" where
  "join_sep [] = []"
| "join_sep [x] = x"
| "join_sep (x # y # ys) = x @ CHR ''/'' # join_sep (y # ys)"

text \<open>
  One round of the loop of \<open>Clean\<close>: \<open>out\<close> is the output written so far, as a
  list of elements, and \<open>e\<close> the element read.  The library's \<open>dotdot\<close> index marks
  the leading \<open>..\<close> elements of an unrooted path, which cannot be backtracked over;
  here that is the case when the last element written is \<open>..\<close>.
\<close>

definition clean_step :: "bool \<Rightarrow> string list \<Rightarrow> string \<Rightarrow> string list" where
  "clean_step rooted out e =
     (if e = [] then out
      else if e = ''.'' then out
      else if e = ''..'' then
        (if out \<noteq> [] \<and> last out \<noteq> ''..'' then butlast out
         else if \<not> rooted then out @ [''..'']
         else out)
      else out @ [e])"

definition is_rooted :: "string \<Rightarrow> bool" where
  "is_rooted p = (p \<noteq> [] \<and> hd p = CHR ''/'')"

definition clean_elems :: "string \<Rightarrow> string list" where
  "clean_elems p = foldl (clean_step (is_rooted p)) [] (split_sep p)"

definition Clean :: "string \<Rightarrow> string" where
  "Clean p =
     (if p = [] then ''.''
      else if is_rooted p then CHR ''/'' # join_sep (clean_elems p)
      else if clean_elems p = [] then ''.''
      else join_sep (clean_elems p))"

text \<open>\<open>filepath.Join\<close>: the elements from the first non-empty one on, joined and cleaned.\<close>

fun filepath_Join :: "string list \<Rightarrow> string" where
  "filepath_Join [] = []"
| "filepath_Join (e # es) =
     (if e \<noteq> [] then Clean (join_sep (e # es)) else filepath_Join es)"

text \<open>\<open>path.Join\<close>: the non-empty elements, joined and cleaned.\<close>

definition path_Join :: "string list \<Rightarrow> string" where
  "path_Join elem =
     (if concat elem = [] then []
      else Clean (join_sep (filter (\<lambda>e. e \<noteq> []) elem)))"

definition strip_slashes :: "string \<Rightarrow> string" where
  "strip_slashes p = rev (dropWhile (\<lambda>c. c = CHR ''/'') (rev p))"

definition filepath_Base :: "string \<Rightarrow> string" where
  "filepath_Base p =
     (if p = [] then ''.''
      else let q = rev (takeWhile (\<lambda>c. c \<noteq> CHR ''/'') (rev (strip_slashes p)))
           in if q = [] then ''/'' else q)"

definition filepath_Dir :: "string \<Rightarrow> string" where
  "filepath_Dir p = Clean (rev (dropWhile (\<lambda>c. c \<noteq> CHR ''/'') (rev p)))"

definition strings_HasPrefix :: "string \<Rightarrow> string \<Rightarrow> bool" where
  "strings_HasPrefix s pre = prefix pre s"

section \<open>Errors\<close>

text \<open>
  Modelled from the spec: the sentinel \<open>ErrNotFound\<close>, the key failure
  \<open>KeyError\<close> (a key with the error that caused its failure) and the report
  \<open>BatchDeleteError\<close> (a summary with the counts of deleted and failed keys, and
  the ordered list of key failures) are declared in other files of the package.  The
  report's message is kept as its two counts.  The remaining errors are those of the
  library: the error numbers of the system calls, wrapped by \<open>OSError\<close>; the errors
  made by \<open>fmt.Errorf\<close> in this file (\<open>PathEscape\<close> with the key and the
  base, \<open>CantCreateDir\<close> with the directory and the cause, \<open>PathRequired\<close>);
  the error of a
  cancelled context; the error of \<open>filepath.Rel\<close>; the two sentinels that steer
  \<open>filepath.Walk\<close>; and the error of a reader, named by a string.
\<close>

datatype errno = ENOENT | ENOTDIR | EISDIR | EEXIST | EINVAL | ENOTEMPTY | EXDEV | EPERM | EBUSY | ENOSPC
  | EACCES

datatype error =
    PathEscape string string
  | ErrNotFound
  | OSError errno
  | CantCreateDir string errno
  | Canceled
  | RelError string string
  | SkipDir
  | SkipAll
  | ReadError string
  | PathRequired
  | BatchDeleteError nat nat "(string \<times> error) list"

section \<open>The path containment guard\<close>

definition containedPath :: "string \<Rightarrow> string \<Rightarrow> error + string" where
  "containedPath basePath key =
     (let joined = Clean (filepath_Join [basePath, key]);
          base = Clean basePath
      in if \<not> strings_HasPrefix joined (base @ [CHR ''/'']) \<and> joined \<noteq> base
         then Inl (PathEscape key basePath)
         else Inr joined)"

section \<open>The file system\<close>

text \<open>
  The operating system is the environment of the program.  It is modelled as a tree of
  directories whose leaves name inodes of regular files; the contents and modification
  times of regular files live in a table indexed by inode number, so that two names
  made by a hard link share one file.  There are no symbolic links.
  The remaining fields are facts of the environment that the calls read: the working
  directory (relative paths start there), the device each location is on (a hard link
  across devices is refused), the directories the process may not write (no entry can
  be made or removed there; a file that is already there can still be opened and
  written), an optional bound on the size of a file (a write beyond it fails after the
  bound is reached), the time, and the size reported for directories.
\<close>

datatype node = File nat | Dir "(string \<times> node) list" nat

record fsys =
  root :: node
  files :: "nat \<Rightarrow> string \<times> nat"
  next_ino :: nat
  cwd :: "string list"
  dev :: "string list \<Rightarrow> nat"
  readonly :: "string list \<Rightarrow> bool"
  maxfile :: "nat option"
  clock :: nat
  dirsize :: nat

record fileinfo =
  fi_size :: int
  fi_mtime :: nat
  fi_isdir :: bool

fun is_dir :: "node \<Rightarrow> bool" where
  "is_dir (Dir es t) = True"
| "is_dir (File i) = False"

definition node_info :: "fsys \<Rightarrow> node \<Rightarrow> fileinfo" where
  "node_info fs n =
     (case n of
        File i \<Rightarrow> \<lparr>fi_size = int (length (fst (files fs i))), fi_mtime = snd (files fs i),
                   fi_isdir = False\<rparr>
      | Dir es t \<Rightarrow> \<lparr>fi_size = int (dirsize fs), fi_mtime = t, fi_isdir = True\<rparr>)"

text \<open>Byte-wise order of names, the order in which a directory is listed.\<close>

fun str_less :: "string \<Rightarrow> string \<Rightarrow> bool" where
  "str_less [] [] = False"
| "str_less [] (y # ys) = True"
| "str_less (x # xs) [] = False"
| "str_less (x # xs) (y # ys) =
     (if (of_char x :: nat) < of_char y then True
      else if x = y then str_less xs ys
      else False)"

fun upd_entry :: "string \<Rightarrow> node \<Rightarrow> (string \<times> node) list \<Rightarrow> (string \<times> node) list" where
  "upd_entry k v [] = [(k, v)]"
| "upd_entry k v ((k', v') # es) =
     (if k = k' then (k, v) # es
      else if str_less k k' then (k, v) # (k', v') # es
      else (k', v') # upd_entry k v es)"

fun del_entry :: "string \<Rightarrow> (string \<times> node) list \<Rightarrow> (string \<times> node) list" where
  "del_entry k [] = []"
| "del_entry k ((k', v') # es) = (if k = k' then del_entry k es else (k', v') # del_entry k es)"

text \<open>Locations are lists of names from the root.\<close>

fun lookup :: "node \<Rightarrow> string list \<Rightarrow> node option" where
  "lookup n [] = Some n"
| "lookup (File i) (c # cs) = None"
| "lookup (Dir es t) (c # cs) =
     (case map_of es c of None \<Rightarrow> None | Some ch \<Rightarrow> lookup ch cs)"

fun put :: "node \<Rightarrow> string list \<Rightarrow> node \<Rightarrow> node" where
  "put n [] new = new"
| "put (File i) (c # cs) new = File i"
| "put (Dir es t) (c # cs) new =
     (case map_of es c of
        None \<Rightarrow> if cs = [] then Dir (upd_entry c new es) t else Dir es t
      | Some ch \<Rightarrow> Dir (upd_entry c (put ch cs new) es) t)"

fun del :: "node \<Rightarrow> string list \<Rightarrow> node" where
  "del n [] = n"
| "del (File i) (c # cs) = File i"
| "del (Dir es t) (c # cs) =
     (if cs = [] then Dir (del_entry c es) t
      else (case map_of es c of
              None \<Rightarrow> Dir es t
            | Some ch \<Rightarrow> Dir (upd_entry c (del ch cs) es) t))"

text \<open>
  Path resolution as the kernel does it: element by element from the root or the
  working directory, where every element but the last must name a directory.
\<close>

fun walk_to :: "node \<Rightarrow> string list \<Rightarrow> string list \<Rightarrow> errno + string list" where
  "walk_to rt cur [] = Inr cur"
| "walk_to rt cur (c # cs) =
     (if c = [] \<or> c = ''.'' then walk_to rt cur cs
      else if c = ''..'' then walk_to rt (butlast cur) cs
      else (case lookup rt (cur @ [c]) of
              None \<Rightarrow> Inl ENOENT
            | Some (File i) \<Rightarrow> Inl ENOTDIR
            | Some (Dir es t) \<Rightarrow> walk_to rt (cur @ [c]) cs))"

definition ends_slash :: "string \<Rightarrow> bool" where
  "ends_slash p = (strip_slashes p \<noteq> [] \<and> last p = CHR ''/'')"

definition start_dir :: "fsys \<Rightarrow> string \<Rightarrow> string list" where
  "start_dir fs p = (if is_rooted p then [] else cwd fs)"

definition locate :: "fsys \<Rightarrow> string \<Rightarrow> errno + string list" where
  "locate fs p =
     (if p = [] then Inl ENOENT
      else let start = start_dir fs p in
        (case lookup (root fs) start of
           None \<Rightarrow> Inl ENOENT
         | Some (File i) \<Rightarrow> Inl ENOTDIR
         | Some (Dir es t) \<Rightarrow>
             if strip_slashes p = [] then Inr []
             else let cs = split_sep (strip_slashes p) in
               (case walk_to (root fs) start (butlast cs) of
                  Inl e \<Rightarrow> Inl e
                | Inr d \<Rightarrow>
                    if last cs = ''.'' then Inr d
                    else if last cs = ''..'' then Inr (butlast d)
                    else Inr (d @ [last cs]))))"

definition resolve :: "fsys \<Rightarrow> string \<Rightarrow> errno + string list \<times> node option" where
  "resolve fs p =
     (case locate fs p of
        Inl e \<Rightarrow> Inl e
      | Inr q \<Rightarrow>
          (case lookup (root fs) q of
             Some (File i) \<Rightarrow> if ends_slash p then Inl ENOTDIR else Inr (q, Some (File i))
           | r \<Rightarrow> Inr (q, r)))"

section \<open>The calls of package os\<close>

definition os_Stat :: "fsys \<Rightarrow> string \<Rightarrow> errno + fileinfo" where
  "os_Stat fs p =
     (case resolve fs p of
        Inl e \<Rightarrow> Inl e
      | Inr (q, None) \<Rightarrow> Inl ENOENT
      | Inr (q, Some n) \<Rightarrow> Inr (node_info fs n))"

definition os_Mkdir :: "fsys \<Rightarrow> string \<Rightarrow> errno + fsys" where
  "os_Mkdir fs p =
     (case resolve fs p of
        Inl e \<Rightarrow> Inl e
      | Inr (q, Some n) \<Rightarrow> Inl EEXIST
      | Inr (q, None) \<Rightarrow>
          if readonly fs (butlast q) then Inl EACCES
          else Inr (fs\<lparr>root := put (root fs) q (Dir [] (clock fs))\<rparr>))"

definition parent_of :: "string \<Rightarrow> string" where
  "parent_of p = rev (dropWhile (\<lambda>c. c \<noteq> CHR ''/'') (rev (strip_slashes p)))"

lemma dropWhile_shorter: "xs \<noteq> [] \<Longrightarrow> P (hd xs) \<Longrightarrow> length (dropWhile P xs) < length xs"
  by (cases xs) (simp_all add: le_imp_less_Suc length_dropWhile_le)

lemma parent_of_shorter: "parent_of p \<noteq> [] \<Longrightarrow> length (parent_of p) < length p"
proof -
  assume ne: "parent_of p \<noteq> []"
  define s where "s = dropWhile (\<lambda>c. c = CHR ''/'') (rev p)"
  have s: "rev (strip_slashes p) = s"
    by (simp add: strip_slashes_def s_def)
  from ne have sne: "s \<noteq> []"
    by (auto simp: parent_of_def s)
  then have "hd s \<noteq> CHR ''/''"
    unfolding s_def using hd_dropWhile [of "\<lambda>c. c = CHR ''/''" "rev p"] by blast
  with sne have "length (dropWhile (\<lambda>c. c \<noteq> CHR ''/'') s) < length s"
    by (rule dropWhile_shorter)
  moreover have "length s \<le> length p"
    unfolding s_def using length_dropWhile_le [of "\<lambda>c. c = CHR ''/''" "rev p"] by simp
  ultimately show ?thesis
    by (simp add: parent_of_def s)
qed

text \<open>
  \<open>os.MkdirAll\<close>, as the library writes it: nothing to do when the path is a directory,
  an error when it is something else; otherwise make the parent (the path up to its
  last separator), then the directory itself.
\<close>

function os_MkdirAll :: "fsys \<Rightarrow> string \<Rightarrow> errno + fsys" where
  "os_MkdirAll fs p =
     (case os_Stat fs p of
        Inr fi \<Rightarrow> if fi_isdir fi then Inr fs else Inl ENOTDIR
      | Inl e0 \<Rightarrow>
          (case (if parent_of p \<noteq> [] then os_MkdirAll fs (parent_of p) else Inr fs) of
             Inl e \<Rightarrow> Inl e
           | Inr fs1 \<Rightarrow>
               (case os_Mkdir fs1 p of
                  Inr fs2 \<Rightarrow> Inr fs2
                | Inl e \<Rightarrow>
                    (case os_Stat fs1 p of
                       Inr fi \<Rightarrow> if fi_isdir fi then Inr fs1 else Inl e
                     | Inl e1 \<Rightarrow> Inl e))))"
  by pat_completeness auto
termination
  by (relation "measure (\<lambda>(fs, p). length p)") (auto simp: parent_of_shorter)

declare os_MkdirAll.simps [simp del]

text \<open>
  \<open>os.Create\<close> opens for writing, creating the file or truncating it.  The handle it
  returns is the inode.  Only a new file needs a directory that can be written.
\<close>

definition os_Create :: "fsys \<Rightarrow> string \<Rightarrow> errno + nat \<times> fsys" where
  "os_Create fs p =
     (case resolve fs p of
        Inl e \<Rightarrow> Inl e
      | Inr (q, Some (Dir es t)) \<Rightarrow> Inl EISDIR
      | Inr (q, Some (File i)) \<Rightarrow> Inr (i, fs\<lparr>files := (files fs)(i := ([], clock fs))\<rparr>)
      | Inr (q, None) \<Rightarrow>
          if ends_slash p then Inl EISDIR
          else if readonly fs (butlast q) then Inl EACCES
          else Inr (next_ino fs,
                 fs\<lparr>root := put (root fs) q (File (next_ino fs)),
                    files := (files fs)(next_ino fs := ([], clock fs)),
                    next_ino := Suc (next_ino fs)\<rparr>))"

text \<open>
  A reader is an open file (its inode), an open directory, or any other stream, given
  by the bytes it delivers and how it ends: at end of file, or with an error.
\<close>

datatype reader = Handle nat | DirHandle | Stream string "error option"

definition os_Open :: "fsys \<Rightarrow> string \<Rightarrow> errno + reader" where
  "os_Open fs p =
     (case resolve fs p of
        Inl e \<Rightarrow> Inl e
      | Inr (q, None) \<Rightarrow> Inl ENOENT
      | Inr (q, Some (File i)) \<Rightarrow> Inr (Handle i)
      | Inr (q, Some (Dir es t)) \<Rightarrow> Inr DirHandle)"

definition read_all :: "fsys \<Rightarrow> reader \<Rightarrow> string \<times> error option" where
  "read_all fs r =
     (case r of
        Handle i \<Rightarrow> (fst (files fs i), None)
      | DirHandle \<Rightarrow> ([], Some (OSError EISDIR))
      | Stream d e \<Rightarrow> (d, e))"

text \<open>
  \<open>io.Copy\<close> into the open file \<open>dst\<close>: the bytes read are written until the reader
  ends or a write fails; the result is the number of bytes written and the error.
\<close>

definition io_Copy :: "fsys \<Rightarrow> nat \<Rightarrow> reader \<Rightarrow> (int \<times> error option) \<times> fsys" where
  "io_Copy fs dst r =
     (let (d, e) = read_all fs r
      in case maxfile fs of
           None \<Rightarrow> ((int (length d), e), fs\<lparr>files := (files fs)(dst := (d, clock fs))\<rparr>)
         | Some m \<Rightarrow>
             if m < length d
             then ((int m, Some (OSError ENOSPC)),
                   fs\<lparr>files := (files fs)(dst := (take m d, clock fs))\<rparr>)
             else ((int (length d), e), fs\<lparr>files := (files fs)(dst := (d, clock fs))\<rparr>))"

definition last_elem :: "string \<Rightarrow> string" where
  "last_elem p = last (split_sep (strip_slashes p))"

text \<open>
  \<open>os.Remove\<close> takes one name out of its directory: a file, or an empty directory.  It
  fails where the directory may not be written, also for a file that \<open>os.Create\<close> has
  just truncated there.
\<close>

definition os_Remove :: "fsys \<Rightarrow> string \<Rightarrow> errno + fsys" where
  "os_Remove fs p =
     (case resolve fs p of
        Inl e \<Rightarrow> Inl e
      | Inr (q, None) \<Rightarrow> Inl ENOENT
      | Inr (q, Some (File i)) \<Rightarrow>
          if readonly fs (butlast q) then Inl EACCES
          else Inr (fs\<lparr>root := del (root fs) q\<rparr>)
      | Inr (q, Some (Dir es t)) \<Rightarrow>
          if es \<noteq> [] then Inl ENOTEMPTY
          else if q = [] then Inl EBUSY
          else if last_elem p = ''.'' then Inl EINVAL
          else if last_elem p = ''..'' then Inl ENOTEMPTY
          else if readonly fs (butlast q) then Inl EACCES
          else Inr (fs\<lparr>root := del (root fs) q\<rparr>))"

definition endsWithDot :: "string \<Rightarrow> bool" where
  "endsWithDot p = (p = ''.'' \<or> prefix ''./'' (rev p))"

text \<open>
  \<open>os.RemoveAll\<close> removes the path and everything below it.  An empty path and a path
  that does not exist are no error; a path whose last element is \<open>.\<close> is refused.
  It removes what it can and reports the first error: \<open>clear\<close> empties a directory
  of every entry that can go (an entry stays when its directory may not be written,
  or when something stays inside it).  The root itself cannot be removed: it is
  emptied and the error reported.
\<close>

definition cleared :: "node \<Rightarrow> bool" where
  "cleared n = (case n of File i \<Rightarrow> True | Dir es t \<Rightarrow> es = [])"

fun clear :: "(string list \<Rightarrow> bool) \<Rightarrow> string list \<Rightarrow> node \<Rightarrow> node"
  and clear_entries ::
    "(string list \<Rightarrow> bool) \<Rightarrow> string list \<Rightarrow> (string \<times> node) list \<Rightarrow> (string \<times> node) list" where
  "clear ro q (File i) = File i"
| "clear ro q (Dir es t) = Dir (clear_entries ro q es) t"
| "clear_entries ro q [] = []"
| "clear_entries ro q ((name, child) # rest) =
     (let c = clear ro (q @ [name]) child
      in if \<not> ro q \<and> cleared c
         then clear_entries ro q rest
         else (name, c) # clear_entries ro q rest)"

definition os_RemoveAll :: "fsys \<Rightarrow> string \<Rightarrow> errno option \<times> fsys" where
  "os_RemoveAll fs p =
     (if p = [] then (None, fs)
      else if endsWithDot p then (Some EINVAL, fs)
      else (case resolve fs p of
              Inl e \<Rightarrow> if e = ENOENT then (None, fs) else (Some e, fs)
            | Inr (q, None) \<Rightarrow> (None, fs)
            | Inr (q, Some n) \<Rightarrow>
                (let n' = clear (readonly fs) q n
                 in if \<not> cleared n' then (Some EACCES, fs\<lparr>root := put (root fs) q n'\<rparr>)
                    else if q = [] then (Some EBUSY, fs\<lparr>root := Dir [] (clock fs)\<rparr>)
                    else if readonly fs (butlast q) then (Some EACCES, fs\<lparr>root := put (root fs) q n'\<rparr>)
                    else (None, fs\<lparr>root := del (root fs) q\<rparr>))))"

definition os_Link :: "fsys \<Rightarrow> string \<Rightarrow> string \<Rightarrow> errno + fsys" where
  "os_Link fs oldname newname =
     (case resolve fs oldname of
        Inl e \<Rightarrow> Inl e
      | Inr (qs, None) \<Rightarrow> Inl ENOENT
      | Inr (qs, Some (Dir es t)) \<Rightarrow> Inl EPERM
      | Inr (qs, Some (File i)) \<Rightarrow>
          (case resolve fs newname of
             Inl e \<Rightarrow> Inl e
           | Inr (qd, Some n) \<Rightarrow> Inl EEXIST
           | Inr (qd, None) \<Rightarrow>
               if ends_slash newname then Inl ENOENT
               else if dev fs qs \<noteq> dev fs qd then Inl EXDEV
               else if readonly fs (butlast qd) then Inl EACCES
               else Inr (fs\<lparr>root := put (root fs) qd (File i)\<rparr>)))"

definition os_ReadDir :: "fsys \<Rightarrow> string \<Rightarrow> errno + (string \<times> fileinfo) list" where
  "os_ReadDir fs p =
     (case resolve fs p of
        Inl e \<Rightarrow> Inl e
      | Inr (q, None) \<Rightarrow> Inl ENOENT
      | Inr (q, Some (File i)) \<Rightarrow> Inl ENOTDIR
      | Inr (q, Some (Dir es t)) \<Rightarrow> Inr (map (\<lambda>(n, c). (n, node_info fs c)) es))"

definition os_Lstat :: "fsys \<Rightarrow> string \<Rightarrow> errno + node" where
  "os_Lstat fs p =
     (case resolve fs p of
        Inl e \<Rightarrow> Inl e
      | Inr (q, None) \<Rightarrow> Inl ENOENT
      | Inr (q, Some n) \<Rightarrow> Inr n)"

definition os_IsNotExist :: "error \<Rightarrow> bool" where
  "os_IsNotExist err = (err = OSError ENOENT)"

subsection \<open>\<open>filepath.Rel\<close> and \<open>filepath.Walk\<close>\<close>

fun strip_common :: "string list \<Rightarrow> string list \<Rightarrow> string list \<times> string list" where
  "strip_common (x # xs) (y # ys) = (if x = y then strip_common xs ys else (x # xs, y # ys))"
| "strip_common xs ys = (xs, ys)"

text \<open>
  \<open>filepath.Rel\<close> cleans both paths, drops their common leading elements, and climbs
  out of what is left of the base before descending into what is left of the target.
\<close>

definition filepath_Rel :: "string \<Rightarrow> string \<Rightarrow> error + string" where
  "filepath_Rel basepath targpath =
     (let base = Clean basepath; targ = Clean targpath
      in if targ = base then Inr ''.''
         else if is_rooted base \<noteq> is_rooted targ then Inl (RelError targpath basepath)
         else (case strip_common (clean_elems base) (clean_elems targ) of
                 (b, t) \<Rightarrow>
                   if b \<noteq> [] \<and> hd b = ''..'' then Inl (RelError targpath basepath)
                   else Inr (join_sep (replicate (length b) ''..'' @ t))))"

text \<open>
  \<open>filepath.Walk\<close> calls the function on the root and then, for a directory, on each
  entry in the order of the listing, descending into directories.  \<open>SkipDir\<close> from
  the function skips the directory it was called on (or, called on a file, the rest of
  the file's directory).  The result is the list of what the function recorded and the
  error that ended the walk.  While a walk runs nothing else changes the tree, so the
  \<open>lstat\<close> of each listed name finds the entry's node.
\<close>

type_synonym 't walkfn = "string \<Rightarrow> fileinfo option \<Rightarrow> error option \<Rightarrow> 't list \<times> error option"

fun walk :: "'t walkfn \<Rightarrow> fsys \<Rightarrow> string \<Rightarrow> node \<Rightarrow> 't list \<times> error option"
  and walk_names :: "'t walkfn \<Rightarrow> fsys \<Rightarrow> string \<Rightarrow> (string \<times> node) list \<Rightarrow> 't list \<times> error option"
where
  "walk fn fs path (File i) = fn path (Some (node_info fs (File i))) None"
| "walk fn fs path (Dir es t) =
     (case fn path (Some (node_info fs (Dir es t))) None of
        (tr1, Some err1) \<Rightarrow> (tr1, Some err1)
      | (tr1, None) \<Rightarrow>
          (case walk_names fn fs path es of (tr2, err2) \<Rightarrow> (tr1 @ tr2, err2)))"
| "walk_names fn fs path [] = ([], None)"
| "walk_names fn fs path ((name, child) # rest) =
     (case walk fn fs (filepath_Join [path, name]) child of
        (tr, Some err) \<Rightarrow>
          if \<not> is_dir child \<or> err \<noteq> SkipDir then (tr, Some err)
          else (case walk_names fn fs path rest of (tr', err') \<Rightarrow> (tr @ tr', err'))
      | (tr, None) \<Rightarrow>
          (case walk_names fn fs path rest of (tr', err') \<Rightarrow> (tr @ tr', err')))"

definition filepath_Walk :: "fsys \<Rightarrow> string \<Rightarrow> 't walkfn \<Rightarrow> 't list \<times> error option" where
  "filepath_Walk fs rt fn =
     (case (case os_Lstat fs rt of
              Inl e \<Rightarrow> fn rt None (Some (OSError e))
            | Inr n \<Rightarrow> walk fn fs rt n) of
        (tr, err) \<Rightarrow> if err = Some SkipDir \<or> err = Some SkipAll then (tr, None) else (tr, err))"

section \<open>The local storage backend\<close>

text \<open>
  Modelled from the spec: \<open>LocalConfig\<close> is declared in the configuration package;
  it holds the base path, the optional object-disk path and the debug switch.  The
  fields of the file descriptor \<open>localFile\<close> are named after its accessor methods;
  sizes are \<open>int64\<close> in the source and integers here, a file being far shorter
  than the bound.  Every operation takes the file system and, when it
  can change it, returns the new one.  Debug logging and warnings have no effect on the
  results and are left out; so is the context argument of the operations that never read
  it.
\<close>

record LocalConfig =
  Path :: string
  ObjectDiskPath :: string
  Debug :: bool

record localFile =
  Size :: int
  LastModified :: nat
  Name :: string

definition Kind :: "LocalConfig \<Rightarrow> string" where
  "Kind l = ''LOCAL''"

definition Connect :: "LocalConfig \<Rightarrow> fsys \<Rightarrow> error option \<times> fsys" where
  "Connect l fs =
     (if Path l = [] then (Some PathRequired, fs)
      else (case os_MkdirAll fs (Path l) of
              Inl err \<Rightarrow> (Some (CantCreateDir (Path l) err), fs)
            | Inr fs1 \<Rightarrow>
                if ObjectDiskPath l \<noteq> []
                then (case os_MkdirAll fs1 (ObjectDiskPath l) of
                        Inl err \<Rightarrow> (Some (CantCreateDir (ObjectDiskPath l) err), fs1)
                      | Inr fs2 \<Rightarrow> (None, fs2))
                else (None, fs1)))"

definition Close :: "LocalConfig \<Rightarrow> error option" where
  "Close l = None"

definition StatFileAbsolute :: "fsys \<Rightarrow> string \<Rightarrow> error + localFile" where
  "StatFileAbsolute fs key =
     (case os_Stat fs key of
        Inl err \<Rightarrow> if os_IsNotExist (OSError err) then Inl ErrNotFound else Inl (OSError err)
      | Inr stat \<Rightarrow>
          Inr \<lparr>Size = fi_size stat, LastModified = fi_mtime stat, Name = filepath_Base key\<rparr>)"

definition StatFile :: "LocalConfig \<Rightarrow> fsys \<Rightarrow> string \<Rightarrow> error + localFile" where
  "StatFile l fs key =
     (case containedPath (Path l) key of
        Inl err \<Rightarrow> Inl err
      | Inr absPath \<Rightarrow> StatFileAbsolute fs absPath)"

definition remove_all :: "fsys \<Rightarrow> string \<Rightarrow> error option \<times> fsys" where
  "remove_all fs absPath =
     (case os_RemoveAll fs absPath of (e, fs') \<Rightarrow> (map_option OSError e, fs'))"

definition DeleteFile :: "LocalConfig \<Rightarrow> fsys \<Rightarrow> string \<Rightarrow> error option \<times> fsys" where
  "DeleteFile l fs key =
     (case containedPath (Path l) key of
        Inl err \<Rightarrow> (Some err, fs)
      | Inr absPath \<Rightarrow> remove_all fs absPath)"

definition DeleteFileFromObjectDiskBackup ::
  "LocalConfig \<Rightarrow> fsys \<Rightarrow> string \<Rightarrow> error option \<times> fsys" where
  "DeleteFileFromObjectDiskBackup l fs key =
     (case containedPath (ObjectDiskPath l) key of
        Inl err \<Rightarrow> (Some err, fs)
      | Inr absPath \<Rightarrow> remove_all fs absPath)"

text \<open>
  Enumeration.  The visitor \<open>process\<close> answers each file descriptor with an error or
  none; the result of a walk is the list of descriptors the visitor was called with, in
  order, and the error returned.
\<close>

definition walk_visit ::
  "string \<Rightarrow> (localFile \<Rightarrow> error option) \<Rightarrow> localFile walkfn" where
  "walk_visit prefix' process fPath info err =
     (case err of
        Some e \<Rightarrow> if os_IsNotExist e then ([], None) else ([], Some e)
      | None \<Rightarrow>
          (case filepath_Rel prefix' fPath of
             Inl relErr \<Rightarrow> ([], Some relErr)
           | Inr relName \<Rightarrow>
               if relName = ''.'' then ([], None)
               else (case info of
                       None \<Rightarrow> ([], None)
                     | Some i \<Rightarrow>
                         (let f = \<lparr>Size = fi_size i, LastModified = fi_mtime i, Name = relName\<rparr>
                          in ([f], process f)))))"

fun visit_entries ::
  "(localFile \<Rightarrow> error option) \<Rightarrow> (string \<times> fileinfo) list \<Rightarrow> localFile list \<times> error option" where
  "visit_entries process [] = ([], None)"
| "visit_entries process ((n, info) # entries) =
     (let f = \<lparr>Size = fi_size info, LastModified = fi_mtime info, Name = n\<rparr>
      in case process f of
           Some err \<Rightarrow> ([f], Some err)
         | None \<Rightarrow> (case visit_entries process entries of (tr, e) \<Rightarrow> (f # tr, e)))"

definition WalkAbsolute ::
  "fsys \<Rightarrow> string \<Rightarrow> bool \<Rightarrow> (localFile \<Rightarrow> error option) \<Rightarrow> localFile list \<times> error option" where
  "WalkAbsolute fs prefix' recursive process =
     (if recursive then filepath_Walk fs prefix' (walk_visit prefix' process)
      else (case os_ReadDir fs prefix' of
              Inl err \<Rightarrow> if os_IsNotExist (OSError err) then ([], None) else ([], Some (OSError err))
            | Inr entries \<Rightarrow> visit_entries process entries))"

definition Walk ::
  "LocalConfig \<Rightarrow> fsys \<Rightarrow> string \<Rightarrow> bool \<Rightarrow> (localFile \<Rightarrow> error option) \<Rightarrow>
     localFile list \<times> error option" where
  "Walk l fs remotePath recursive process =
     (let prefix' = path_Join [Path l, remotePath]
      in WalkAbsolute fs prefix' recursive process)"

definition GetFileReaderAbsolute :: "fsys \<Rightarrow> string \<Rightarrow> error + reader" where
  "GetFileReaderAbsolute fs key =
     (case os_Open fs key of Inl e \<Rightarrow> Inl (OSError e) | Inr r \<Rightarrow> Inr r)"

definition GetFileReader :: "LocalConfig \<Rightarrow> fsys \<Rightarrow> string \<Rightarrow> error + reader" where
  "GetFileReader l fs key =
     (case containedPath (Path l) key of
        Inl err \<Rightarrow> Inl err
      | Inr absPath \<Rightarrow> GetFileReaderAbsolute fs absPath)"

definition GetFileReaderWithLocalPath ::
  "LocalConfig \<Rightarrow> fsys \<Rightarrow> string \<Rightarrow> string \<Rightarrow> int \<Rightarrow> error + reader" where
  "GetFileReaderWithLocalPath l fs key localPath remoteSize = GetFileReader l fs key"

text \<open>
  Create-for-write.  When the copy fails the partial file is removed; a removal that
  fails is logged only, so the result is then the copy's error on the file system as
  the copy left it.
\<close>

definition PutFileAbsolute :: "fsys \<Rightarrow> string \<Rightarrow> reader \<Rightarrow> int \<Rightarrow> error option \<times> fsys" where
  "PutFileAbsolute fs key r localSize =
     (let dir = filepath_Dir key
      in case os_MkdirAll fs dir of
           Inl err \<Rightarrow> (Some (CantCreateDir dir err), fs)
         | Inr fs1 \<Rightarrow>
             (case os_Create fs1 key of
                Inl err \<Rightarrow> (Some (OSError err), fs1)
              | Inr (dst, fs2) \<Rightarrow>
                  (case io_Copy fs2 dst r of
                     ((n, Some err), fs3) \<Rightarrow>
                       (case os_Remove fs3 key of
                          Inl removeErr \<Rightarrow> (Some err, fs3)
                        | Inr fs4 \<Rightarrow> (Some err, fs4))
                   | ((n, None), fs3) \<Rightarrow> (None, fs3))))"

definition PutFile ::
  "LocalConfig \<Rightarrow> fsys \<Rightarrow> string \<Rightarrow> reader \<Rightarrow> int \<Rightarrow> error option \<times> fsys" where
  "PutFile l fs key r localSize =
     (case containedPath (Path l) key of
        Inl err \<Rightarrow> (Some err, fs)
      | Inr absPath \<Rightarrow> PutFileAbsolute fs absPath r localSize)"

definition CopyObject ::
  "LocalConfig \<Rightarrow> fsys \<Rightarrow> int \<Rightarrow> string \<Rightarrow> string \<Rightarrow> string \<Rightarrow> (error + int) \<times> fsys" where
  "CopyObject l fs srcSize srcBucket srcKey dstKey =
     (let dstKey' = path_Join [ObjectDiskPath l, dstKey];
          srcPath = path_Join [Path l, srcKey];
          dstPath = dstKey';
          dstDir = filepath_Dir dstPath
      in case os_MkdirAll fs dstDir of
           Inl err \<Rightarrow> (Inl (CantCreateDir dstDir err), fs)
         | Inr fs1 \<Rightarrow>
             (case os_Link fs1 srcPath dstPath of
                Inr fs2 \<Rightarrow> (Inr srcSize, fs2)
              | Inl linkErr \<Rightarrow>
                  (case os_Open fs1 srcPath of
                     Inl err \<Rightarrow> (Inl (OSError err), fs1)
                   | Inr src \<Rightarrow>
                       (case os_Create fs1 dstPath of
                          Inl err \<Rightarrow> (Inl (OSError err), fs1)
                        | Inr (dst, fs2) \<Rightarrow>
                            (case io_Copy fs2 dst src of
                               ((written, Some err), fs3) \<Rightarrow> (Inl err, fs3)
                             | ((written, None), fs3) \<Rightarrow> (Inr written, fs3))))))"

text \<open>
  Batch delete.  The context is the number of further checks of \<open>ctx.Done()\<close> that
  find it open (\<open>None\<close>: it is never cancelled).  A key failure pairs the key with its
  error; the report carries the two counts of its message and the failures.
\<close>

fun ctx_Done :: "nat option \<Rightarrow> bool" where
  "ctx_Done None = False"
| "ctx_Done (Some n) = (n = 0)"

fun ctx_next :: "nat option \<Rightarrow> nat option" where
  "ctx_next None = None"
| "ctx_next (Some n) = Some (n - 1)"

fun delete_loop ::
  "nat option \<Rightarrow> string \<Rightarrow> string list \<Rightarrow> (string \<times> error) list \<Rightarrow> nat \<Rightarrow> fsys \<Rightarrow>
     (error + (string \<times> error) list \<times> nat) \<times> fsys" where
  "delete_loop ctx basePath [] failures deletedCount fs = (Inr (failures, deletedCount), fs)"
| "delete_loop ctx basePath (key # keys) failures deletedCount fs =
     (if ctx_Done ctx then (Inl Canceled, fs)
      else (case containedPath basePath key of
              Inl pathErr \<Rightarrow>
                delete_loop (ctx_next ctx) basePath keys (failures @ [(key, pathErr)])
                  deletedCount fs
            | Inr absPath \<Rightarrow>
                (case os_RemoveAll fs absPath of
                   (Some err, fs') \<Rightarrow>
                     delete_loop (ctx_next ctx) basePath keys (failures @ [(key, OSError err)])
                       deletedCount fs'
                 | (None, fs') \<Rightarrow>
                     delete_loop (ctx_next ctx) basePath keys failures (deletedCount + 1) fs')))"

definition deleteKeysBatchInternal ::
  "nat option \<Rightarrow> fsys \<Rightarrow> string \<Rightarrow> string list \<Rightarrow> error option \<times> fsys" where
  "deleteKeysBatchInternal ctx fs basePath keys =
     (case delete_loop ctx basePath keys [] 0 fs of
        (Inl err, fs') \<Rightarrow> (Some err, fs')
      | (Inr (failures, deletedCount), fs') \<Rightarrow>
          if length failures > 0
          then (Some (BatchDeleteError deletedCount (length failures) failures), fs')
          else (None, fs'))"

definition DeleteKeysBatch ::
  "LocalConfig \<Rightarrow> nat option \<Rightarrow> fsys \<Rightarrow> string list \<Rightarrow> error option \<times> fsys" where
  "DeleteKeysBatch l ctx fs keys =
     (if length keys = 0 then (None, fs)
      else deleteKeysBatchInternal ctx fs (Path l) keys)"

definition DeleteKeysFromObjectDiskBackupBatch ::
  "LocalConfig \<Rightarrow> nat option \<Rightarrow> fsys \<Rightarrow> string list \<Rightarrow> error option \<times> fsys" where
  "DeleteKeysFromObjectDiskBackupBatch l ctx fs keys =
     (if length keys = 0 then (None, fs)
      else deleteKeysBatchInternal ctx fs (ObjectDiskPath l) keys)"

section \<open>Notions used to state the properties\<close>

text \<open>
  What the batch loop does for one key, and the outcomes of doing it for each key of a
  list in turn, every key on the file system the keys before it have left.
\<close>

definition delete_one :: "string \<Rightarrow> fsys \<Rightarrow> string \<Rightarrow> error option \<times> fsys" where
  "delete_one basePath fs key =
     (case containedPath basePath key of
        Inl pathErr \<Rightarrow> (Some pathErr, fs)
      | Inr absPath \<Rightarrow> remove_all fs absPath)"

fun outcomes :: "string \<Rightarrow> fsys \<Rightarrow> string list \<Rightarrow> (string \<times> error option) list \<times> fsys" where
  "outcomes basePath fs [] = ([], fs)"
| "outcomes basePath fs (key # keys) =
     (case delete_one basePath fs key of
        (e, fs') \<Rightarrow> (case outcomes basePath fs' keys of (os, fs'') \<Rightarrow> ((key, e) # os, fs'')))"

fun failed :: "(string \<times> error option) list \<Rightarrow> (string \<times> error) list" where
  "failed [] = []"
| "failed ((k, None) # os) = failed os"
| "failed ((k, Some e) # os) = (k, e) # failed os"

fun deleted :: "(string \<times> error option) list \<Rightarrow> nat" where
  "deleted [] = 0"
| "deleted ((k, None) # os) = Suc (deleted os)"
| "deleted ((k, Some e) # os) = deleted os"

definition report :: "(string \<times> error option) list \<Rightarrow> error option" where
  "report os =
     (if failed os = [] then None
      else Some (BatchDeleteError (deleted os) (length (failed os)) (failed os)))"

text \<open>The context stays open for the checks before \<open>n\<close> keys.\<close>

fun ctx_open :: "nat option \<Rightarrow> nat \<Rightarrow> bool" where
  "ctx_open None n = True"
| "ctx_open (Some m) n = (n \<le> m)"

text \<open>
  Names of files: an ordinary name is an element that is not empty, not \<open>.\<close> or
  \<open>..\<close>, and has no separator.  A cleaned list of elements has its \<open>..\<close>
  elements first (none when the path is rooted) and ordinary names after them.
\<close>

definition ordinary :: "string \<Rightarrow> bool" where
  "ordinary e = (e \<noteq> [] \<and> e \<noteq> ''.'' \<and> e \<noteq> ''..'' \<and> CHR ''/'' \<notin> set e)"

definition elem_ok :: "string \<Rightarrow> bool" where
  "elem_ok e = (e \<noteq> [] \<and> e \<noteq> ''.'' \<and> CHR ''/'' \<notin> set e)"

fun cleaned :: "bool \<Rightarrow> string list \<Rightarrow> bool" where
  "cleaned rooted [] = True"
| "cleaned rooted (e # es) =
     (if e = ''..'' then \<not> rooted \<and> cleaned rooted es
      else ordinary e \<and> list_all ordinary es)"

text \<open>A location of the tree holds a directory.\<close>

definition isdir_at :: "node \<Rightarrow> string list \<Rightarrow> bool" where
  "isdir_at rt q = (case lookup rt q of Some (Dir es t) \<Rightarrow> True | _ \<Rightarrow> False)"





text \<open>
  A small file system for the examples: \<open>/data/backup\<close> holds the file \<open>a\<close> and the
  directory \<open>sub\<close> with the file \<open>b\<close>; beside it, \<open>/data/other\<close> holds the file \<open>s\<close>.
\<close>

definition example_fs :: fsys where
  "example_fs =
     \<lparr>root = Dir [(''data'',
                Dir [(''backup'', Dir [(''a'', File 1), (''sub'', Dir [(''b'', File 2)] 0)] 0),
                     (''other'', Dir [(''s'', File 3)] 0)] 0)] 0,
      files = (\<lambda>i. ([], 0))(1 := (''hello'', 1), 2 := (''bb'', 2), 3 := (''secret'', 3)),
      next_ino = 4, cwd = [''data''], dev = (\<lambda>q. 0), readonly = (\<lambda>q. False),
      maxfile = None, clock = 10,
      dirsize = 4096\<rparr>"

definition example_cfg :: LocalConfig where
  "example_cfg = \<lparr>Path = ''/data/backup'', ObjectDiskPath = ''/data/od'', Debug = False\<rparr>"

text \<open>
  The example after the directory \<open>n\<close> is made, after the file \<open>n/m\<close> is created
  in it, and after the bytes \<open>xyz\<close> are written to it.
\<close>

definition example_fs1 :: fsys where
  "example_fs1 = example_fs\<lparr>root :=
     Dir [(''data'',
           Dir [(''backup'', Dir [(''a'', File 1), (''n'', Dir [] 10),
                                  (''sub'', Dir [(''b'', File 2)] 0)] 0),
                (''other'', Dir [(''s'', File 3)] 0)] 0)] 0\<rparr>"

definition example_fs2 :: fsys where
  "example_fs2 = example_fs\<lparr>root :=
     Dir [(''data'',
           Dir [(''backup'', Dir [(''a'', File 1), (''n'', Dir [(''m'', File 4)] 10),
                                  (''sub'', Dir [(''b'', File 2)] 0)] 0),
                (''other'', Dir [(''s'', File 3)] 0)] 0)] 0,
     files := (files example_fs)(4 := ([], 10)), next_ino := 5\<rparr>"

definition example_fs3 :: fsys where
  "example_fs3 = example_fs2\<lparr>files := (files example_fs2)(4 := (''xyz'', 10))\<rparr>"

text \<open>The example with a base directory that the process may not write.\<close>

definition example_ro :: fsys where
  "example_ro = example_fs\<lparr>readonly := (\<lambda>q. q = [''data'', ''backup''])\<rparr>"

text \<open>
  A configuration whose two trees are \<open>/data/other\<close> and \<open>/data/out\<close>; the example
  with the object-disk tree on a device of its own; and the example's tree with the
  directory \<open>/data/od/x\<close> holding the given entries.
\<close>

definition outside_cfg :: LocalConfig where
  "outside_cfg = \<lparr>Path = ''/data/other'', ObjectDiskPath = ''/data/out'', Debug = False\<rparr>"

definition example_xdev :: fsys where
  "example_xdev = example_fs\<lparr>dev := (\<lambda>q. if take 2 q = [''data'', ''od''] then 1 else 0)\<rparr>"

definition od_root :: "(string \<times> node) list \<Rightarrow> node" where
  "od_root es =
     Dir [(''data'',
           Dir [(''backup'', Dir [(''a'', File 1), (''sub'', Dir [(''b'', File 2)] 0)] 0),
                (''od'', Dir [(''x'', Dir es 10)] 10),
                (''other'', Dir [(''s'', File 3)] 0)] 0)] 0"

section \<open>Properties\<close>

lemmas path_defs = Clean_def clean_elems_def clean_step_def is_rooted_def strings_HasPrefix_def
  path_Join_def filepath_Dir_def filepath_Base_def strip_slashes_def

lemmas os_defs = cleared_def resolve_def locate_def start_dir_def ends_slash_def os_Stat_def os_Mkdir_def parent_of_def
  os_Create_def os_Open_def read_all_def io_Copy_def last_elem_def os_Remove_def endsWithDot_def
  os_RemoveAll_def os_Link_def os_ReadDir_def os_Lstat_def os_IsNotExist_def node_info_def


lemma split_sep_nonempty: "split_sep s \<noteq> []"
  by (induction s) (auto split: list.splits)

lemmas go_defs = containedPath_def StatFile_def StatFileAbsolute_def DeleteFile_def remove_all_def
  DeleteFileFromObjectDiskBackup_def Walk_def WalkAbsolute_def walk_visit_def filepath_Walk_def
  filepath_Rel_def GetFileReader_def GetFileReaderAbsolute_def PutFile_def PutFileAbsolute_def
  CopyObject_def deleteKeysBatchInternal_def DeleteKeysBatch_def
  DeleteKeysFromObjectDiskBackupBatch_def delete_one_def

subsection \<open>Elements of cleaned paths\<close>

lemma split_sep_no_slash: "e \<in> set (split_sep s) \<Longrightarrow> CHR ''/'' \<notin> set e"
proof (induction s arbitrary: e)
  case Nil
  then show ?case by simp
next
  case (Cons c s)
  then show ?case
    by (cases "split_sep s") (auto split: if_splits)
qed

lemma split_sep_append: "split_sep (a @ CHR ''/'' # b) = split_sep a @ split_sep b"
proof (induction a)
  case Nil
  show ?case by simp
next
  case (Cons c a)
  then show ?case
    using split_sep_nonempty [of a]
    by (cases "split_sep a") (auto split: list.splits)
qed

lemma split_sep_single: "CHR ''/'' \<notin> set e \<Longrightarrow> split_sep e = [e]"
  by (induction e) auto

lemma split_join: "xs \<noteq> [] \<Longrightarrow> \<forall>e\<in>set xs. CHR ''/'' \<notin> set e \<Longrightarrow> split_sep (join_sep xs) = xs"
proof (induction xs rule: join_sep.induct)
  case 1
  then show ?case by simp
next
  case (2 x)
  then show ?case by (simp add: split_sep_single)
next
  case (3 x y ys)
  then show ?case by (simp add: split_sep_append split_sep_single)
qed


lemma join_sep_Cons: "join_sep (e # es) = e @ (if es = [] then [] else CHR ''/'' # join_sep es)"
  by (cases es) auto

lemma cleaned_snoc: "cleaned r xs \<Longrightarrow> ordinary e \<Longrightarrow> cleaned r (xs @ [e])"
  by (induction xs) (auto simp: ordinary_def)

lemma cleaned_butlast: "cleaned r xs \<Longrightarrow> cleaned r (butlast xs)"
  by (induction xs) (auto simp: list_all_iff dest: in_set_butlastD)

lemma cleaned_dotdots: "cleaned False xs \<Longrightarrow> (xs \<noteq> [] \<longrightarrow> last xs = ''..'') \<Longrightarrow> cleaned False (xs @ [''..''])"
  by (induction xs) (auto simp: ordinary_def list_all_iff split: if_splits)

lemma cleaned_step:
  assumes "cleaned r out" and "CHR ''/'' \<notin> set e"
  shows "cleaned r (clean_step r out e)"
proof -
  have "ordinary e" if "e \<noteq> []" "e \<noteq> ''.''" "e \<noteq> ''..''"
    using that assms(2) by (simp add: ordinary_def)
  then show ?thesis
    using assms(1)
    by (auto simp: clean_step_def cleaned_snoc cleaned_butlast cleaned_dotdots)
qed

lemma cleaned_foldl:
  "cleaned r out \<Longrightarrow> \<forall>e\<in>set xs. CHR ''/'' \<notin> set e \<Longrightarrow> cleaned r (foldl (clean_step r) out xs)"
  by (induction xs arbitrary: out) (auto simp: cleaned_step)

lemma cleaned_clean_elems: "cleaned (is_rooted p) (clean_elems p)"
  unfolding clean_elems_def
  by (rule cleaned_foldl) (auto dest: split_sep_no_slash)

lemma cleaned_elem_ok: "cleaned r xs \<Longrightarrow> e \<in> set xs \<Longrightarrow> elem_ok e"
  by (induction xs) (auto simp: elem_ok_def ordinary_def list_all_iff split: if_splits)

lemma foldl_clean_ordinary:
  "list_all ordinary xs \<Longrightarrow> foldl (clean_step r) out xs = out @ xs"
  by (induction xs arbitrary: out) (auto simp: clean_step_def ordinary_def)

lemma foldl_clean_cleaned:
  "cleaned r xs \<Longrightarrow> (out \<noteq> [] \<longrightarrow> last out = ''..'') \<Longrightarrow> (out \<noteq> [] \<longrightarrow> \<not> r) \<Longrightarrow>
   foldl (clean_step r) out xs = out @ xs"
proof (induction xs arbitrary: out)
  case Nil
  then show ?case by simp
next
  case (Cons e es)
  show ?case
  proof (cases "e = ''..''")
    case True
    with Cons.prems have nr: "\<not> r" and c: "cleaned r es" by auto
    from True nr Cons.prems(2) have "clean_step r out e = out @ [''..'']"
      by (auto simp: clean_step_def)
    with Cons.IH [OF c, of "out @ [''..'']"] nr True show ?thesis by simp
  next
    case False
    with Cons.prems have "list_all ordinary (e # es)" by simp
    from foldl_clean_ordinary [OF this] show ?thesis .
  qed
qed

lemma clean_fixed: "cleaned r xs \<Longrightarrow> foldl (clean_step r) [] xs = xs"
  using foldl_clean_cleaned [of r xs "[]"] by simp

lemma join_sep_hd:
  "xs \<noteq> [] \<Longrightarrow> hd xs \<noteq> [] \<Longrightarrow> join_sep xs \<noteq> [] \<and> hd (join_sep xs) = hd (hd xs)"
  by (induction xs rule: join_sep.induct) auto

lemma clean_elems_Nil [simp]: "clean_elems [] = []"
  by (simp add: clean_elems_def clean_step_def)

lemma is_rooted_Clean: "is_rooted (Clean p) = is_rooted p"
proof (cases "is_rooted p")
  case True
  then show ?thesis by (auto simp: Clean_def is_rooted_def)
next
  case False
  show ?thesis
  proof (cases "clean_elems p = []")
    case True
    with False show ?thesis by (auto simp: Clean_def is_rooted_def)
  next
    case ne: False
    from cleaned_elem_ok [OF cleaned_clean_elems, of "hd (clean_elems p)" p] ne
    have ok: "elem_ok (hd (clean_elems p))" by simp
    then have "hd (clean_elems p) \<noteq> []" "hd (hd (clean_elems p)) \<noteq> CHR ''/''"
      by (cases "hd (clean_elems p)"; auto simp: elem_ok_def)+
    with join_sep_hd [OF ne] have "\<not> is_rooted (join_sep (clean_elems p))"
      by (simp add: is_rooted_def)
    with False ne show ?thesis by (auto simp: Clean_def)
  qed
qed

lemma clean_elems_Clean: "clean_elems (Clean p) = clean_elems p"
proof -
  have cl: "cleaned (is_rooted p) (clean_elems p)" by (rule cleaned_clean_elems)
  have ns: "\<forall>e\<in>set (clean_elems p). CHR ''/'' \<notin> set e"
    using cleaned_elem_ok [OF cl] by (auto simp: elem_ok_def)
  show ?thesis
  proof (cases "clean_elems p = []")
    case True
    then show ?thesis
      by (auto simp: Clean_def) (auto simp: clean_elems_def clean_step_def is_rooted_def)
  next
    case ne: False
    have sj: "split_sep (join_sep (clean_elems p)) = clean_elems p"
      by (rule split_join [OF ne ns])
    show ?thesis
    proof (cases "is_rooted p")
      case True
      then have "Clean p = CHR ''/'' # join_sep (clean_elems p)" by (auto simp: Clean_def is_rooted_def)
      moreover have "clean_elems (CHR ''/'' # join_sep (clean_elems p)) =
          foldl (clean_step True) [] (clean_elems p)"
        using sj by (simp add: clean_elems_def is_rooted_def clean_step_def)
      ultimately show ?thesis using clean_fixed [OF cl] True by simp
    next
      case False
      with ne have c: "Clean p = join_sep (clean_elems p)" by (auto simp: Clean_def)
      from is_rooted_Clean [of p] False c have "\<not> is_rooted (join_sep (clean_elems p))" by simp
      then have "clean_elems (join_sep (clean_elems p)) = foldl (clean_step False) [] (clean_elems p)"
        using sj by (simp add: clean_elems_def)
      with c clean_fixed [OF cl] False show ?thesis by simp
    qed
  qed
qed

lemma Clean_eq_iff: "Clean a = Clean b \<longleftrightarrow> is_rooted a = is_rooted b \<and> clean_elems a = clean_elems b"
proof
  assume "Clean a = Clean b"
  then show "is_rooted a = is_rooted b \<and> clean_elems a = clean_elems b"
    using is_rooted_Clean [of a] is_rooted_Clean [of b] clean_elems_Clean [of a] clean_elems_Clean [of b]
    by simp
next
  assume "is_rooted a = is_rooted b \<and> clean_elems a = clean_elems b"
  then show "Clean a = Clean b"
    by (auto simp: Clean_def is_rooted_def)
qed

lemma Clean_idem: "Clean (Clean p) = Clean p"
  by (simp add: Clean_eq_iff is_rooted_Clean clean_elems_Clean)






lemma elem_ok_not_dot_slash: "elem_ok e \<Longrightarrow> \<not> prefix ''./'' (e @ s)"
proof (cases e)
  case Nil
  assume "elem_ok e"
  with Nil show ?thesis by (simp add: elem_ok_def)
next
  case (Cons c e')
  assume "elem_ok e"
  with Cons show ?thesis by (cases e') (auto simp: elem_ok_def)
qed

lemma Clean_not_dot_slash: "\<not> prefix ''./'' (Clean p)"
proof (cases "p = [] \<or> is_rooted p \<or> clean_elems p = []")
  case True
  then show ?thesis by (auto simp: Clean_def)
next
  case False
  then obtain e es where es: "clean_elems p = e # es" by (cases "clean_elems p") auto
  from cleaned_elem_ok [OF cleaned_clean_elems, of e p] es have "elem_ok e" by simp
  from elem_ok_not_dot_slash [OF this] False es show ?thesis
    by (simp add: Clean_def join_sep_Cons)
qed

lemma join_sep_append:
  "xs \<noteq> [] \<Longrightarrow> ys \<noteq> [] \<Longrightarrow> join_sep (xs @ ys) = join_sep xs @ CHR ''/'' # join_sep ys"
proof (induction xs rule: join_sep.induct)
  case 1
  then show ?case by simp
next
  case (2 x)
  then show ?case by (cases ys) simp_all
next
  case (3 x y zs)
  then show ?case by simp
qed

lemma Clean_elems_form:
  "clean_elems p \<noteq> [] \<Longrightarrow>
   Clean p = (if is_rooted p then ''/'' else []) @ join_sep (clean_elems p)"
  by (auto simp: Clean_def)

lemma Clean_no_elems_form:
  "clean_elems p = [] \<Longrightarrow> Clean p = (if is_rooted p then ''/'' else ''.'')"
  by (auto simp: Clean_def is_rooted_def)

lemma clean_elems_no_slash: "e \<in> set (clean_elems p) \<Longrightarrow> CHR ''/'' \<notin> set e"
  using cleaned_elem_ok [OF cleaned_clean_elems, of e p] by (simp add: elem_ok_def)

lemma join_sep_nonempty: "xs \<noteq> [] \<Longrightarrow> hd xs \<noteq> [] \<Longrightarrow> join_sep xs \<noteq> []"
  using join_sep_hd [of xs] by simp

lemma is_rooted_Join:
  assumes "b \<noteq> []"
  shows "is_rooted (filepath_Join [b, key]) = is_rooted b"
proof -
  from assms have "filepath_Join [b, key] = Clean (b @ CHR ''/'' # key)" by simp
  moreover from assms have "is_rooted (b @ CHR ''/'' # key) = is_rooted b"
    by (cases b) (auto simp: is_rooted_def)
  ultimately show ?thesis by (simp only: is_rooted_Clean)
qed

lemma Clean_Join: "b \<noteq> [] \<Longrightarrow> Clean (filepath_Join [b, key]) = filepath_Join [b, key]"
  by (simp add: Clean_idem)

lemma Clean_not_slash_slash: "\<not> prefix ''//'' (Clean p)"
proof (cases "clean_elems p")
  case Nil
  then show ?thesis using Clean_no_elems_form [of p] by auto
next
  case (Cons e es)
  from cleaned_elem_ok [OF cleaned_clean_elems, of e p] Cons have "e \<noteq> []" "CHR ''/'' \<notin> set e"
    by (simp_all add: elem_ok_def)
  then have "hd (e @ s) \<noteq> CHR ''/''" for s by (cases e) auto
  with Cons Clean_elems_form [of p] \<open>e \<noteq> []\<close> show ?thesis
    by (cases e) (auto simp: join_sep_Cons)
qed

subsection \<open>The base name of a contained path\<close>











subsection \<open>What the guard accepts\<close>

text \<open>
  For a base with at least one element the guard accepts a key exactly when the
  elements of the cleaned join begin with the elements of the cleaned base.  For a
  base without elements (the root, or the current directory) it accepts only the keys
  whose cleaned join is the cleaned base itself.  Both are comparisons of names, not
  of places: a relative base may begin with \<open>..\<close> elements, and then a join
  that begins with the same elements is accepted also where it names a directory above
  the base, as \<open>../..\<close> does for the base \<open>..\<close>
  (\<open>containedPath_parent_of_relative_base\<close>).
\<close>

lemma containedPath_iff_below:
  assumes "clean_elems basePath \<noteq> []"
  shows "containedPath basePath key =
           (if prefix (clean_elems basePath) (clean_elems (filepath_Join [basePath, key]))
            then Inr (filepath_Join [basePath, key])
            else Inl (PathEscape key basePath))"
proof -
  define B where "B = clean_elems basePath"
  define x where "x = filepath_Join [basePath, key]"
  define J where "J = clean_elems x"
  define pfx where "pfx = (if is_rooted basePath then ''/'' else [])"
  from assms have bne: "basePath \<noteq> []" by auto
  have rx: "is_rooted x = is_rooted basePath"
    unfolding x_def by (rule is_rooted_Join [OF bne])
  have cx: "Clean x = x" unfolding x_def by (rule Clean_Join [OF bne])
  have cb: "Clean basePath = pfx @ join_sep B"
    unfolding B_def pfx_def by (rule Clean_elems_form [OF assms])
  have Bne: "B \<noteq> []" using assms by (simp add: B_def)
  have Bns: "\<forall>e\<in>set B. CHR ''/'' \<notin> set e"
    unfolding B_def by (auto dest: clean_elems_no_slash)
  have Jns: "\<forall>e\<in>set J. CHR ''/'' \<notin> set e"
    unfolding J_def by (auto dest: clean_elems_no_slash)
  have hdB: "hd B \<noteq> []"
    using cleaned_elem_ok [OF cleaned_clean_elems, of "hd B" basePath] Bne
    by (simp add: B_def elem_ok_def)
  have jB: "join_sep B \<noteq> []" by (rule join_sep_nonempty [OF Bne hdB])
  have "(strings_HasPrefix x (Clean basePath @ ''/'') \<or> x = Clean basePath) \<longleftrightarrow> prefix B J"
  proof
    assume "prefix B J"
    then obtain R where R: "J = B @ R" by (auto simp: prefix_def)
    show "strings_HasPrefix x (Clean basePath @ ''/'') \<or> x = Clean basePath"
    proof (cases "R = []")
      case True
      with R rx have "Clean x = Clean basePath"
        by (simp add: Clean_eq_iff J_def B_def)
      with cx show ?thesis by simp
    next
      case False
      from R Bne have "clean_elems x \<noteq> []" by (simp add: J_def)
      from Clean_elems_form [OF this] rx have "Clean x = pfx @ join_sep J"
        by (simp add: pfx_def J_def)
      also have "\<dots> = (pfx @ join_sep B @ ''/'') @ join_sep R"
        by (simp add: R join_sep_append [OF Bne False])
      finally show ?thesis
        by (simp add: cx cb strings_HasPrefix_def)
    qed
  next
    assume a: "strings_HasPrefix x (Clean basePath @ ''/'') \<or> x = Clean basePath"
    show "prefix B J"
    proof (cases "x = Clean basePath")
      case True
      then have "clean_elems x = clean_elems (Clean basePath)" by simp
      then show ?thesis by (simp add: clean_elems_Clean J_def B_def)
    next
      case False
      with a obtain rest where rest: "x = pfx @ join_sep B @ CHR ''/'' # rest"
        by (auto simp: strings_HasPrefix_def prefix_def cb)
      have Jne: "J \<noteq> []"
      proof
        assume "J = []"
        then have "Clean x = (if is_rooted x then ''/'' else ''.'')"
          unfolding J_def by (rule Clean_no_elems_form)
        with cx rest rx jB show False
          by (cases "join_sep B") (auto simp: pfx_def split: if_splits)
      qed
      then have "clean_elems x \<noteq> []" by (simp add: J_def)
      from Clean_elems_form [OF this] rx cx have "x = pfx @ join_sep J"
        by (simp add: pfx_def J_def)
      with rest have "join_sep J = join_sep B @ CHR ''/'' # rest" by simp
      then have "split_sep (join_sep J) = split_sep (join_sep B @ CHR ''/'' # rest)" by simp
      then have "J = B @ split_sep rest"
        by (simp only: split_sep_append split_join [OF Jne Jns] split_join [OF Bne Bns])
      then show ?thesis by simp
    qed
  qed
  then show ?thesis
    unfolding containedPath_def Let_def x_def [symmetric] cx B_def J_def
    by auto
qed

lemma containedPath_no_elems:
  assumes "clean_elems basePath = []"
  shows "containedPath basePath key =
           (if Clean (filepath_Join [basePath, key]) = Clean basePath
            then Inr (Clean basePath)
            else Inl (PathEscape key basePath))"
  using Clean_no_elems_form [OF assms] Clean_not_slash_slash [of "filepath_Join [basePath, key]"]
    Clean_not_dot_slash [of "filepath_Join [basePath, key]"]
  by (auto simp: containedPath_def Let_def strings_HasPrefix_def)

lemma containedPath_parent_of_relative_base: "containedPath ''..'' ''..'' = Inr ''../..''"
  by (simp add: containedPath_def path_defs)

text \<open>
  C2.  The guard is to return the cleaned join of base and key exactly when that path is
  the cleaned base or lies below it.  With the root directory as base this fails: the
  cleaned join of \<open>/\<close> and \<open>a\<close> is \<open>/a\<close>, a child of the cleaned base \<open>/\<close>, and
  the guard returns the escape error, because it compares against the base followed by
  a separator, \<open>//\<close>.
\<close>

theorem containedPath_rejects_child_of_root:
  "Clean (filepath_Join [''/'', ''a'']) = ''/a'' \<and> Clean ''/'' = ''/'' \<and>
   containedPath ''/'' ''a'' = Inl (PathEscape ''a'' ''/'')"
  by (simp add: containedPath_def path_defs)

subsection \<open>The guard in the key-based operations\<close>

text \<open>
  When the guard rejects a key, stat, open-for-read, create-for-write and delete return
  the guard's error and leave the file system as it is.
\<close>

lemma guard_stops_key_operations:
  assumes "containedPath (Path l) key = Inl err"
  shows "StatFile l fs key = Inl err \<and> GetFileReader l fs key = Inl err
       \<and> PutFile l fs key r localSize = (Some err, fs) \<and> DeleteFile l fs key = (Some err, fs)"
  using assms by (simp add: StatFile_def GetFileReader_def PutFile_def DeleteFile_def)

text \<open>
  A key whose cleaned join does not begin with the elements of the cleaned base is
  rejected, whatever the base.
\<close>

lemma guard_rejects_escaping_keys:
  assumes "\<not> prefix (clean_elems (Path l)) (clean_elems (filepath_Join [Path l, key]))"
  shows "StatFile l fs key = Inl (PathEscape key (Path l))
       \<and> GetFileReader l fs key = Inl (PathEscape key (Path l))
       \<and> PutFile l fs key r localSize = (Some (PathEscape key (Path l)), fs)
       \<and> DeleteFile l fs key = (Some (PathEscape key (Path l)), fs)"
proof -
  from assms have "clean_elems (Path l) \<noteq> []" by auto
  from containedPath_iff_below [OF this, of key] assms
  have "containedPath (Path l) key = Inl (PathEscape key (Path l))" by simp
  then show ?thesis by (rule guard_stops_key_operations)
qed

text \<open>
  C1.  Every key-based operation is to fail with the escape error on a key that leaves
  the base.  The key-based \<open>Walk\<close> does not call the guard: it joins the base and the
  key and enumerates whatever is there.  With the base \<open>/data/backup\<close> the key
  \<open>../other\<close> is rejected by the guard, and \<open>Walk\<close> lists the file \<open>s\<close> of
  \<open>/data/other\<close> without an error.
\<close>

theorem Walk_enumerates_outside_base:
  "containedPath (Path example_cfg) ''../other'' = Inl (PathEscape ''../other'' ''/data/backup'')
   \<and> Walk example_cfg example_fs ''../other'' True (\<lambda>f. None)
       = ([\<lparr>Size = 6, LastModified = 3, Name = ''s''\<rparr>], None)"
  by (simp add: example_cfg_def example_fs_def go_defs path_defs os_defs)

subsection \<open>Batch delete\<close>

lemma ctx_open_step: "ctx_open ctx (Suc n) \<Longrightarrow> \<not> ctx_Done ctx \<and> ctx_open (ctx_next ctx) n"
  by (cases ctx) auto

lemma delete_loop_outcomes:
  "ctx_open ctx (length keys) \<Longrightarrow>
   delete_loop ctx basePath keys failures deletedCount fs =
     (Inr (failures @ failed (fst (outcomes basePath fs keys)),
           deletedCount + deleted (fst (outcomes basePath fs keys))),
      snd (outcomes basePath fs keys))"
proof (induction keys arbitrary: ctx failures deletedCount fs)
  case Nil
  then show ?case by simp
next
  case (Cons key keys)
  from Cons.prems have open': "\<not> ctx_Done ctx" "ctx_open (ctx_next ctx) (length keys)"
    using ctx_open_step [of ctx "length keys"] by simp_all
  show ?case
  proof (cases "containedPath basePath key")
    case (Inl pathErr)
    then show ?thesis
      using open' Cons.IH [OF open'(2)]
      by (simp add: delete_one_def split: prod.splits)
  next
    case (Inr absPath)
    then show ?thesis
      using open' Cons.IH [OF open'(2)]
      by (cases "os_RemoveAll fs absPath")
         (auto simp: delete_one_def remove_all_def split: prod.splits option.splits)
  qed
qed

lemma outcomes_keys: "map fst (fst (outcomes basePath fs keys)) = keys"
  by (induction keys arbitrary: fs) (simp_all add: split_beta)

lemma delete_one_eq_DeleteFile: "delete_one (Path l) fs key = DeleteFile l fs key"
  by (simp add: delete_one_def DeleteFile_def)

text \<open>
  C4 (as stated).  The claim holds for every list of keys without a proviso.  The loop
  checks the context before each key: under a context that is already cancelled the
  single key \<open>a\<close> is not attempted, the file stays, and the result is the
  cancellation, neither success nor a failure report.
\<close>

theorem batch_delete_cancelled_counterexample:
  "deleteKeysBatchInternal (Some 0) example_fs ''/data/backup'' [''a''] = (Some Canceled, example_fs)
   \<and> fst (outcomes ''/data/backup'' example_fs [''a'']) = [(''a'', None)]"
  by (simp add: deleteKeysBatchInternal_def delete_one_def containedPath_def remove_all_def
        path_defs os_defs example_fs_def)

text \<open>
  C4 (amended).  While the context stays open, batch delete does for every key, in input
  order, what a single delete does, each on the file system left by the keys before; the
  keys whose path escaped or whose removal failed are the failures, in order, each with
  its cause; the result is success exactly when there is no failure, and otherwise the
  one report that lists them.
\<close>

theorem batch_delete_attempts_all:
  assumes "ctx_open ctx (length keys)"
  shows "deleteKeysBatchInternal ctx fs basePath keys =
           (report (fst (outcomes basePath fs keys)), snd (outcomes basePath fs keys))
         \<and> map fst (fst (outcomes basePath fs keys)) = keys
         \<and> (fst (deleteKeysBatchInternal ctx fs basePath keys) = None
              \<longleftrightarrow> failed (fst (outcomes basePath fs keys)) = [])"
  using delete_loop_outcomes [OF assms, of basePath "[]" 0 fs]
  by (simp add: deleteKeysBatchInternal_def report_def outcomes_keys)

text \<open>
  The example of the claim: of the keys \<open>a\<close>, \<open>../other\<close>, \<open>sub\<close> the second escapes
  the base; the first and the third are deleted and the report lists only the second.
\<close>

theorem batch_delete_attempts_all_witness:
  "ctx_open None (length [''a'', ''../other'', ''sub''])
   \<and> fst (deleteKeysBatchInternal None example_fs ''/data/backup'' [''a'', ''../other'', ''sub''])
       = Some (BatchDeleteError 2 1 [(''../other'', PathEscape ''../other'' ''/data/backup'')])
   \<and> root (snd (deleteKeysBatchInternal None example_fs ''/data/backup'' [''a'', ''../other'', ''sub'']))
       = Dir [(''data'', Dir [(''backup'', Dir [] 0), (''other'', Dir [(''s'', File 3)] 0)] 0)] 0"
proof -
  have h: "ctx_open None (length [''a'', ''../other'', ''sub''])"
    by simp
  have os: "fst (outcomes ''/data/backup'' example_fs [''a'', ''../other'', ''sub'']) =
      [(''a'', None), (''../other'', Some (PathEscape ''../other'' ''/data/backup'')), (''sub'', None)]"
    by (simp add: delete_one_def containedPath_def remove_all_def path_defs os_defs example_fs_def)
  have rt: "root (snd (outcomes ''/data/backup'' example_fs [''a'', ''../other'', ''sub''])) =
      Dir [(''data'', Dir [(''backup'', Dir [] 0), (''other'', Dir [(''s'', File 3)] 0)] 0)] 0"
    by (simp add: delete_one_def containedPath_def remove_all_def path_defs os_defs example_fs_def)
  show ?thesis
    using batch_delete_attempts_all [OF h, of example_fs "''/data/backup''"] os rt
    by (simp add: report_def)
qed

text \<open>
  When the context is cancelled before the last key, the loop stops at the first check
  that finds it so: the keys before have been attempted, and the result is the
  cancellation.
\<close>

lemma delete_loop_cancelled:
  "m < length keys \<Longrightarrow>
   delete_loop (Some m) basePath keys failures deletedCount fs =
     (Inl Canceled, snd (outcomes basePath fs (take m keys)))"
proof (induction keys arbitrary: m failures deletedCount fs)
  case Nil
  then show ?case by simp
next
  case (Cons key keys)
  show ?case
  proof (cases m)
    case 0
    then show ?thesis by simp
  next
    case (Suc j)
    with Cons.prems have j: "j < length keys" by simp
    show ?thesis
    proof (cases "containedPath basePath key")
      case (Inl pathErr)
      with Suc Cons.IH [OF j] show ?thesis
        by (simp add: delete_one_def split: prod.splits)
    next
      case (Inr absPath)
      with Suc Cons.IH [OF j] show ?thesis
        by (cases "os_RemoveAll fs absPath")
           (auto simp: delete_one_def remove_all_def split: prod.splits option.splits)
    qed
  qed
qed

lemma batch_delete_cancelled:
  "m < length keys \<Longrightarrow>
   deleteKeysBatchInternal (Some m) fs basePath keys =
     (Some Canceled, snd (outcomes basePath fs (take m keys)))"
  by (simp add: deleteKeysBatchInternal_def delete_loop_cancelled)

subsection \<open>An empty object-disk path\<close>

lemma containedPath_empty_base: "containedPath [] key = Inr p \<Longrightarrow> p = ''.''"
  using Clean_not_dot_slash [of "filepath_Join [[], key]"]
  by (auto simp: containedPath_def strings_HasPrefix_def Clean_def Let_def split: if_splits)

lemma delete_one_empty_base: "\<exists>e. delete_one [] fs key = (Some e, fs)"
proof (cases "containedPath [] key")
  case (Inl e)
  then show ?thesis by (simp add: delete_one_def)
next
  case (Inr p)
  from containedPath_empty_base [OF this] Inr show ?thesis
    by (simp add: delete_one_def remove_all_def os_RemoveAll_def endsWithDot_def)
qed

lemma delete_loop_empty_base:
  "delete_loop ctx [] keys failures cnt fs = (r, fs') \<Longrightarrow>
   fs' = fs \<and> (case r of Inl e \<Rightarrow> True
              | Inr (f, c) \<Rightarrow> c = cnt \<and> length f = length failures + length keys)"
proof (induction keys arbitrary: ctx failures)
  case Nil
  then show ?case by auto
next
  case (Cons key keys)
  from delete_one_empty_base [of fs key] obtain e where e: "delete_one [] fs key = (Some e, fs)" ..
  show ?case
  proof (cases "ctx_Done ctx")
    case True
    with Cons.prems show ?thesis by auto
  next
    case False
    show ?thesis
    proof (cases "containedPath [] key")
      case (Inl pe)
      with False Cons.prems have
        "delete_loop (ctx_next ctx) [] keys (failures @ [(key, pe)]) cnt fs = (r, fs')" by simp
      from Cons.IH [OF this] show ?thesis by (auto split: sum.splits)
    next
      case (Inr p)
      with e obtain en where "os_RemoveAll fs p = (Some en, fs)"
        by (cases "os_RemoveAll fs p") (auto simp: delete_one_def remove_all_def)
      with Inr False Cons.prems have
        "delete_loop (ctx_next ctx) [] keys (failures @ [(key, OSError en)]) cnt fs = (r, fs')" by simp
      from Cons.IH [OF this] show ?thesis by (auto split: sum.splits)
    qed
  qed
qed

text \<open>
  With an empty \<open>ObjectDiskPath\<close>, deleting from the object-disk backup fails for
  every key, and the object-disk batch delete fails for every list of keys that is not
  empty; both leave the file system unchanged.
\<close>

lemma object_disk_delete_unavailable:
  assumes "ObjectDiskPath l = []"
  shows "(\<exists>e. DeleteFileFromObjectDiskBackup l fs key = (Some e, fs))
       \<and> (keys = [] \<or> (\<exists>e. DeleteKeysFromObjectDiskBackupBatch l ctx fs keys = (Some e, fs)))"
proof -
  have a: "\<exists>e. DeleteFileFromObjectDiskBackup l fs key = (Some e, fs)"
    using delete_one_empty_base [of fs key] assms
    by (simp add: DeleteFileFromObjectDiskBackup_def delete_one_def)
  have b: "\<exists>e. DeleteKeysFromObjectDiskBackupBatch l ctx fs keys = (Some e, fs)" if "keys \<noteq> []"
  proof -
    obtain r fs' where d: "delete_loop ctx [] keys [] 0 fs = (r, fs')"
      by (cases "delete_loop ctx [] keys [] 0 fs")
    from delete_loop_empty_base [OF d] that d assms show ?thesis
      by (cases r) (auto simp: DeleteKeysFromObjectDiskBackupBatch_def deleteKeysBatchInternal_def)
  qed
  from a b show ?thesis by blast
qed

lemma object_disk_delete_unavailable_example:
  "ObjectDiskPath (example_cfg\<lparr>ObjectDiskPath := []\<rparr>) = []
   \<and> DeleteFileFromObjectDiskBackup (example_cfg\<lparr>ObjectDiskPath := []\<rparr>) example_fs ''a''
       = (Some (PathEscape ''a'' []), example_fs)
   \<and> DeleteKeysFromObjectDiskBackupBatch (example_cfg\<lparr>ObjectDiskPath := []\<rparr>) None example_fs
         [''a'', ''.'']
       = (Some (BatchDeleteError 0 2 [(''a'', PathEscape ''a'' []), (''.'', OSError EINVAL)]),
          example_fs)"
proof -
  have h: "ObjectDiskPath (example_cfg\<lparr>ObjectDiskPath := []\<rparr>) = []" by simp
  have a: "DeleteFileFromObjectDiskBackup (example_cfg\<lparr>ObjectDiskPath := []\<rparr>) example_fs ''a''
       = (Some (PathEscape ''a'' []), example_fs)"
    by (simp add: go_defs path_defs)
  have b: "DeleteKeysFromObjectDiskBackupBatch (example_cfg\<lparr>ObjectDiskPath := []\<rparr>) None example_fs
         [''a'', ''.'']
       = (Some (BatchDeleteError 0 2 [(''a'', PathEscape ''a'' []), (''.'', OSError EINVAL)]),
          example_fs)"
    by (simp add: go_defs path_defs os_RemoveAll_def endsWithDot_def)
  from object_disk_delete_unavailable [OF h, of example_fs "''a''" "[''a'', ''.'']" None] h a b
  show ?thesis by simp
qed

text \<open>
  C5.  With an empty \<open>ObjectDiskPath\<close> the three object-disk operations are to fail
  for every key.  The two deletes do, through the guard
  (\<open>object_disk_delete_unavailable\<close>).  \<open>CopyObject\<close> does not call the guard: its
  destination is then the destination key itself, a path relative to the working
  directory (here \<open>/data\<close>).  For the key \<open>x/y\<close>, which both deletes refuse with
  the escape error, it makes the directory \<open>/data/x\<close> and in it the link \<open>y\<close> to
  the source file, and returns the size.
\<close>

theorem CopyObject_empty_object_disk_path:
  "DeleteFileFromObjectDiskBackup (example_cfg\<lparr>ObjectDiskPath := []\<rparr>) example_fs ''x/y''
     = (Some (PathEscape ''x/y'' []), example_fs)
   \<and> DeleteKeysFromObjectDiskBackupBatch (example_cfg\<lparr>ObjectDiskPath := []\<rparr>) None example_fs
         [''x/y'']
       = (Some (BatchDeleteError 0 1 [(''x/y'', PathEscape ''x/y'' [])]), example_fs)
   \<and> fst (CopyObject (example_cfg\<lparr>ObjectDiskPath := []\<rparr>) example_fs 5 ''bucket'' ''a'' ''x/y'') = Inr 5
   \<and> root (snd (CopyObject (example_cfg\<lparr>ObjectDiskPath := []\<rparr>) example_fs 5 ''bucket'' ''a'' ''x/y''))
       = Dir [(''data'',
               Dir [(''backup'', Dir [(''a'', File 1), (''sub'', Dir [(''b'', File 2)] 0)] 0),
                    (''other'', Dir [(''s'', File 3)] 0),
                    (''x'', Dir [(''y'', File 1)] 10)] 0)] 0"
proof -
  have a: "DeleteFileFromObjectDiskBackup (example_cfg\<lparr>ObjectDiskPath := []\<rparr>) example_fs ''x/y''
     = (Some (PathEscape ''x/y'' []), example_fs)"
    by (simp add: go_defs path_defs)
  have b: "DeleteKeysFromObjectDiskBackupBatch (example_cfg\<lparr>ObjectDiskPath := []\<rparr>) None example_fs
         [''x/y'']
       = (Some (BatchDeleteError 0 1 [(''x/y'', PathEscape ''x/y'' [])]), example_fs)"
    by (simp add: go_defs path_defs)
  have c: "fst (CopyObject (example_cfg\<lparr>ObjectDiskPath := []\<rparr>) example_fs 5 ''bucket'' ''a'' ''x/y'') = Inr 5
   \<and> root (snd (CopyObject (example_cfg\<lparr>ObjectDiskPath := []\<rparr>) example_fs 5 ''bucket'' ''a'' ''x/y''))
       = Dir [(''data'',
               Dir [(''backup'', Dir [(''a'', File 1), (''sub'', Dir [(''b'', File 2)] 0)] 0),
                    (''other'', Dir [(''s'', File 3)] 0),
                    (''x'', Dir [(''y'', File 1)] 10)] 0)] 0"
    by (simp add: example_cfg_def example_fs_def CopyObject_def os_MkdirAll.simps path_defs os_defs)
  from a b c show ?thesis by blast
qed

subsection \<open>Changes of the tree that keep its directories\<close>

lemma map_of_upd_entry: "map_of (upd_entry k v es) k' = (if k' = k then Some v else map_of es k')"
  by (induction es) auto

lemma map_of_del_entry: "map_of (del_entry k es) k' = (if k' = k then None else map_of es k')"
  by (induction es) auto

lemma lookup_snoc:
  "lookup rt (q @ [c]) = (case lookup rt q of Some (Dir es t) \<Rightarrow> map_of es c | _ \<Rightarrow> None)"
proof (induction q arbitrary: rt)
  case Nil
  show ?case by (cases rt) (auto split: option.splits)
next
  case (Cons a q)
  then show ?case by (cases rt) (auto split: option.splits)
qed

lemma isdir_at_butlast: "lookup rt q \<noteq> None \<Longrightarrow> q \<noteq> [] \<Longrightarrow> isdir_at rt (butlast q)"
proof -
  assume a: "lookup rt q \<noteq> None" and ne: "q \<noteq> []"
  from ne have "q = butlast q @ [last q]" by simp
  with a have "lookup rt (butlast q @ [last q]) \<noteq> None" by simp
  then show ?thesis
    by (auto simp: lookup_snoc isdir_at_def split: option.splits node.splits)
qed

lemma isdir_at_butlast':
  assumes "isdir_at rt q"
  shows "isdir_at rt (butlast q)"
proof (cases "q = []")
  case True
  with assms show ?thesis by simp
next
  case False
  from assms have "lookup rt q \<noteq> None"
    by (auto simp: isdir_at_def split: option.splits)
  from isdir_at_butlast [OF this False] show ?thesis .
qed

lemma lookup_put_same: "isdir_at rt q \<Longrightarrow> lookup (put rt (q @ [c]) new) (q @ [c]) = Some new"
proof (induction q arbitrary: rt)
  case Nil
  then show ?case
    by (cases rt) (auto simp: isdir_at_def map_of_upd_entry split: option.splits)
next
  case (Cons a q)
  then show ?case
    by (cases rt) (auto simp: isdir_at_def map_of_upd_entry split: option.splits)
qed

lemma put_keeps_dir:
  "isdir_at rt q' \<Longrightarrow> \<not> isdir_at rt q \<Longrightarrow> \<not> is_dir new \<Longrightarrow> isdir_at (put rt q new) q'"
proof (induction q arbitrary: rt q')
  case Nil
  then show ?case
    by (cases rt; cases q') (auto simp: isdir_at_def)
next
  case (Cons c cs)
  show ?case
  proof (cases rt)
    case (File i)
    with Cons.prems show ?thesis by (cases q') (auto simp: isdir_at_def)
  next
    case (Dir es t)
    show ?thesis
    proof (cases q')
      case Nil
      with Dir show ?thesis by (auto simp: isdir_at_def split: option.splits)
    next
      case (Cons c' cs')
      show ?thesis
      proof (cases "c' = c")
        case False
        with Cons Dir Cons.prems show ?thesis
          by (auto simp: isdir_at_def map_of_upd_entry split: option.splits)
      next
        case True
        from Cons.prems(1) Dir Cons True obtain ch where ch: "map_of es c = Some ch" "isdir_at ch cs'"
          by (auto simp: isdir_at_def split: option.splits)
        from Cons.prems(2) Dir ch have "\<not> isdir_at ch cs"
          by (auto simp: isdir_at_def)
        from Cons.IH [OF ch(2) this Cons.prems(3)] Dir Cons True ch show ?thesis
          by (auto simp: isdir_at_def map_of_upd_entry)
      qed
    qed
  qed
qed

lemma del_keeps_dir:
  "isdir_at rt q' \<Longrightarrow> \<not> isdir_at rt q \<Longrightarrow> isdir_at (del rt q) q'"
proof (induction q arbitrary: rt q')
  case Nil
  then show ?case by simp
next
  case (Cons c cs)
  show ?case
  proof (cases rt)
    case (File i)
    with Cons.prems show ?thesis by (cases q') (auto simp: isdir_at_def)
  next
    case (Dir es t)
    show ?thesis
    proof (cases q')
      case Nil
      with Dir show ?thesis by (auto simp: isdir_at_def split: option.splits)
    next
      case (Cons c' cs')
      show ?thesis
      proof (cases "c' = c")
        case False
        with Cons Dir Cons.prems show ?thesis
          by (auto simp: isdir_at_def map_of_upd_entry map_of_del_entry split: option.splits)
      next
        case True
        from Cons.prems(1) Dir Cons True obtain ch where ch: "map_of es c = Some ch" "isdir_at ch cs'"
          by (auto simp: isdir_at_def split: option.splits)
        from Cons.prems(2) Dir ch have nd: "\<not> isdir_at ch cs"
          by (auto simp: isdir_at_def)
        then have "cs \<noteq> cs'" using ch(2) by auto
        with nd ch(2) have "cs \<noteq> []"
          by (cases cs') (auto simp: isdir_at_def split: option.splits node.splits)
        with Cons.IH [OF ch(2) nd] Dir Cons True ch show ?thesis
          by (auto simp: isdir_at_def map_of_upd_entry)
      qed
    qed
  qed
qed

lemma lookup_del_same: "q \<noteq> [] \<Longrightarrow> lookup (del rt q) q = None"
proof (induction q arbitrary: rt)
  case Nil
  then show ?case by simp
next
  case (Cons c cs)
  then show ?case
    by (cases rt) (auto simp: map_of_upd_entry map_of_del_entry split: option.splits)
qed

lemma walk_to_isdir: "isdir_at rt cur \<Longrightarrow> walk_to rt cur cs = Inr d \<Longrightarrow> isdir_at rt d"
proof (induction cs arbitrary: cur)
  case Nil
  then show ?case by simp
next
  case (Cons c cs)
  show ?case
  proof (cases "c = [] \<or> c = ''.''")
    case True
    with Cons show ?thesis by auto
  next
    case False
    show ?thesis
    proof (cases "c = ''..''")
      case True
      with Cons.prems have "walk_to rt (butlast cur) cs = Inr d" by simp
      from Cons.IH [OF isdir_at_butlast' [OF Cons.prems(1)] this] show ?thesis .
    next
      case nd: False
      with False Cons.prems(2) obtain es t where l: "lookup rt (cur @ [c]) = Some (Dir es t)"
        and w: "walk_to rt (cur @ [c]) cs = Inr d"
        by (auto split: option.splits node.splits)
      from l have "isdir_at rt (cur @ [c])" by (simp add: isdir_at_def)
      from Cons.IH [OF this w] show ?thesis .
    qed
  qed
qed

lemma walk_to_dirs:
  "(\<And>q. isdir_at rt q \<Longrightarrow> isdir_at rt' q) \<Longrightarrow> walk_to rt cur cs = Inr d \<Longrightarrow>
   walk_to rt' cur cs = Inr d"
proof (induction cs arbitrary: cur)
  case Nil
  then show ?case by simp
next
  case (Cons c cs)
  show ?case
  proof (cases "c = [] \<or> c = ''.'' \<or> c = ''..''")
    case True
    with Cons show ?thesis by (auto split: if_splits)
  next
    case False
    with Cons.prems(2) obtain es t where l: "lookup rt (cur @ [c]) = Some (Dir es t)"
      and w: "walk_to rt (cur @ [c]) cs = Inr d"
      by (auto split: option.splits node.splits)
    from l have "isdir_at rt (cur @ [c])" by (simp add: isdir_at_def)
    then have "isdir_at rt' (cur @ [c])" by (rule Cons.prems(1))
    then obtain es' t' where "lookup rt' (cur @ [c]) = Some (Dir es' t')"
      by (auto simp: isdir_at_def split: option.splits node.splits)
    with False Cons.IH [OF Cons.prems(1) w] show ?thesis by simp
  qed
qed

lemma strip_slashes_Nil_rooted: "p \<noteq> [] \<Longrightarrow> strip_slashes p = [] \<Longrightarrow> is_rooted p"
  by (cases p) (auto simp: strip_slashes_def is_rooted_def dropWhile_eq_Nil_conv)

lemma locate_dirs:
  assumes "\<And>q. isdir_at (root fs) q \<Longrightarrow> isdir_at (root fs') q"
    and "cwd fs' = cwd fs" and "locate fs p = Inr q"
  shows "locate fs' p = Inr q"
proof -
  have st: "start_dir fs' p = start_dir fs p"
    using assms(2) by (simp add: start_dir_def)
  from assms(3) have pne: "p \<noteq> []" and sd: "isdir_at (root fs) (start_dir fs p)"
    by (auto simp: locate_def isdir_at_def Let_def split: if_splits option.splits node.splits)
  from sd have sd': "isdir_at (root fs') (start_dir fs p)" by (rule assms(1))
  then obtain es' t' where l': "lookup (root fs') (start_dir fs p) = Some (Dir es' t')"
    by (auto simp: isdir_at_def split: option.splits node.splits)
  from sd obtain es t where l: "lookup (root fs) (start_dir fs p) = Some (Dir es t)"
    by (auto simp: isdir_at_def split: option.splits node.splits)
  show ?thesis
  proof (cases "strip_slashes p = []")
    case True
    with assms(3) pne l l' st show ?thesis
      by (simp add: locate_def Let_def)
  next
    case False
    with assms(3) pne l obtain d where
      w: "walk_to (root fs) (start_dir fs p) (butlast (split_sep (strip_slashes p))) = Inr d"
      by (auto simp: locate_def Let_def split: sum.splits)
    from walk_to_dirs [OF assms(1) w] have
      "walk_to (root fs') (start_dir fs p) (butlast (split_sep (strip_slashes p))) = Inr d" by simp
    with w False assms(3) pne l l' st show ?thesis
      by (simp add: locate_def Let_def)
  qed
qed

lemma locate_shape:
  assumes "locate fs p = Inr q" and "\<not> isdir_at (root fs) q"
  shows "\<exists>d l. q = d @ [l] \<and> isdir_at (root fs) d"
proof -
  from assms(1) have pne: "p \<noteq> []" and sd: "isdir_at (root fs) (start_dir fs p)"
    by (auto simp: locate_def isdir_at_def Let_def split: if_splits option.splits node.splits)
  from sd obtain es t where l: "lookup (root fs) (start_dir fs p) = Some (Dir es t)"
    by (auto simp: isdir_at_def split: option.splits node.splits)
  show ?thesis
  proof (cases "strip_slashes p = []")
    case True
    with assms(1) pne l have "q = []"
      by (auto simp: locate_def Let_def)
    moreover from True pne have "start_dir fs p = []"
      by (simp add: start_dir_def strip_slashes_Nil_rooted)
    ultimately show ?thesis using sd assms(2) by simp
  next
    case False
    with assms(1) pne l obtain d where
      w: "walk_to (root fs) (start_dir fs p) (butlast (split_sep (strip_slashes p))) = Inr d"
      by (auto simp: locate_def Let_def split: sum.splits)
    from walk_to_isdir [OF sd w] have dd: "isdir_at (root fs) d" .
    from w False assms(1) pne l have
      "q = d \<or> q = butlast d \<or> q = d @ [last (split_sep (strip_slashes p))]"
      by (auto simp: locate_def Let_def split: if_splits)
    with dd assms(2) isdir_at_butlast' [OF dd] show ?thesis by auto
  qed
qed

lemma locate_cong:
  assumes "root fs' = root fs" and "cwd fs' = cwd fs"
  shows "locate fs' p = locate fs p"
  unfolding locate_def start_dir_def assms ..

lemma resolve_cong:
  assumes "root fs' = root fs" and "cwd fs' = cwd fs"
  shows "resolve fs' p = resolve fs p"
  unfolding resolve_def locate_cong [OF assms] assms ..

lemma os_Create_resolve:
  assumes "os_Create fs p = Inr (h, fs')"
  shows "\<exists>q. resolve fs' p = Inr (q, Some (File h))" and "cwd fs' = cwd fs"
proof -
  from assms obtain q r where r: "resolve fs p = Inr (q, r)"
    by (auto simp: os_Create_def split: sum.splits)
  then have loc: "locate fs p = Inr q" and lk: "lookup (root fs) q = r"
    by (auto simp: resolve_def split: sum.splits option.splits node.splits if_splits)
  show "cwd fs' = cwd fs"
    using assms r by (auto simp: os_Create_def split: option.splits node.splits if_splits)
  show "\<exists>q. resolve fs' p = Inr (q, Some (File h))"
  proof (cases r)
    case None
    with assms r have ns: "\<not> ends_slash p" and h: "h = next_ino fs"
      and rt: "root fs' = put (root fs) q (File h)" and cw: "cwd fs' = cwd fs"
      by (auto simp: os_Create_def split: if_splits)
    from lk None have nd: "\<not> isdir_at (root fs) q" by (simp add: isdir_at_def)
    from locate_shape [OF loc nd] obtain d l where q: "q = d @ [l]" and dd: "isdir_at (root fs) d"
      by blast
    have keep: "\<And>q'. isdir_at (root fs) q' \<Longrightarrow> isdir_at (root fs') q'"
      unfolding rt by (rule put_keeps_dir [OF _ nd]) simp_all
    from locate_dirs [OF keep cw loc] have "locate fs' p = Inr q" by simp
    moreover from lookup_put_same [OF dd] have "lookup (root fs') q = Some (File h)"
      by (simp add: rt q)
    ultimately show ?thesis using ns by (simp add: resolve_def)
  next
    case (Some n)
    with assms r obtain i where n: "n = File i" and h: "h = i"
      and rt: "root fs' = root fs" and cw: "cwd fs' = cwd fs"
      by (cases n) (auto simp: os_Create_def)
    from resolve_cong [OF rt cw] r Some n h show ?thesis by simp
  qed
qed

lemma io_Copy_frame:
  assumes "io_Copy fs h r = ((n, e), fs')"
  shows "root fs' = root fs" and "cwd fs' = cwd fs"
    and "e = None \<Longrightarrow> fst (files fs' h) = fst (read_all fs r) \<and> n = int (length (fst (read_all fs r)))
           \<and> snd (read_all fs r) = None"
  using assms
  by (auto simp: io_Copy_def split: prod.splits option.splits if_splits)

lemma os_Remove_file:
  assumes "resolve fs p = Inr (q, Some (File h))"
  shows "os_Remove fs p =
           (if readonly fs (butlast q) then Inl EACCES else Inr (fs\<lparr>root := del (root fs) q\<rparr>))"
    and "resolve (fs\<lparr>root := del (root fs) q\<rparr>) p = Inr (q, None)"
proof -
  from assms have loc: "locate fs p = Inr q" and lk: "lookup (root fs) q = Some (File h)"
    by (auto simp: resolve_def split: sum.splits option.splits node.splits if_splits)
  from lk have nd: "\<not> isdir_at (root fs) q" by (simp add: isdir_at_def)
  from locate_shape [OF loc nd] have qne: "q \<noteq> []" by auto
  let ?fs' = "fs\<lparr>root := del (root fs) q\<rparr>"
  have keep: "\<And>q'. isdir_at (root fs) q' \<Longrightarrow> isdir_at (root ?fs') q'"
    by (simp add: del_keeps_dir [OF _ nd])
  from locate_dirs [OF keep _ loc] have "locate ?fs' p = Inr q" by simp
  moreover have "lookup (root ?fs') q = None"
    using lookup_del_same [OF qne] by simp
  ultimately show "resolve ?fs' p = Inr (q, None)"
    by (simp add: resolve_def)
  from assms show "os_Remove fs p =
           (if readonly fs (butlast q) then Inl EACCES else Inr (fs\<lparr>root := del (root fs) q\<rparr>))"
    by (simp add: os_Remove_def)
qed

lemma io_Copy_written:
  assumes "io_Copy fs h r = ((n, e), fs')"
  shows "n = int (length (fst (files fs' h)))"
  using assms
  by (auto simp: io_Copy_def split: prod.splits option.splits if_splits)

lemma os_Create_files:
  assumes "os_Create fs p = Inr (h, fs')"
  shows "files fs' = (files fs)(h := ([], clock fs))"
  using assms
  by (auto simp: os_Create_def split: sum.splits prod.splits option.splits node.splits if_splits)

lemma os_Mkdir_files: "os_Mkdir fs p = Inr fs' \<Longrightarrow> files fs' = files fs"
  by (auto simp: os_Mkdir_def split: sum.splits prod.splits option.splits if_splits)

lemma os_MkdirAll_files: "os_MkdirAll fs p = Inr fs' \<Longrightarrow> files fs' = files fs"
proof (induction fs p arbitrary: fs' rule: os_MkdirAll.induct)
  case (1 fs p)
  show ?case
  proof (cases "os_Stat fs p")
    case (Inr fi)
    with "1.prems" show ?thesis
      by (subst (asm) os_MkdirAll.simps) (simp split: if_splits)
  next
    case (Inl e0)
    obtain fs1 where
      par: "(if parent_of p \<noteq> [] then os_MkdirAll fs (parent_of p) else Inr fs) = Inr fs1"
      and rest: "(case os_Mkdir fs1 p of
                    Inr fs2 \<Rightarrow> Inr fs2
                  | Inl e \<Rightarrow>
                      (case os_Stat fs1 p of
                         Inr fi \<Rightarrow> if fi_isdir fi then Inr fs1 else Inl e
                       | Inl e1 \<Rightarrow> Inl e)) = Inr fs'"
      using "1.prems" Inl
      by (subst (asm) os_MkdirAll.simps) (auto split: sum.splits)
    have f1: "files fs1 = files fs"
    proof (cases "parent_of p \<noteq> []")
      case True
      with par have "os_MkdirAll fs (parent_of p) = Inr fs1" by simp
      from "1.IH" [OF Inl True this] show ?thesis .
    next
      case False
      with par show ?thesis by simp
    qed
    from rest have "files fs' = files fs1"
      by (auto split: sum.splits if_splits dest: os_Mkdir_files)
    with f1 show ?thesis by simp
  qed
qed

lemma os_Stat_file:
  "resolve fs p = Inr (q, Some (File h)) \<Longrightarrow>
   os_Stat fs p = Inr \<lparr>fi_size = int (length (fst (files fs h))), fi_mtime = snd (files fs h), fi_isdir = False\<rparr>"
  by (simp add: os_Stat_def node_info_def)

lemma create_copy_resolve:
  assumes "os_Create fs1 p = Inr (h, fs2)" and "io_Copy fs2 h r = ((n, e), fs3)"
  shows "\<exists>q. resolve fs3 p = Inr (q, Some (File h))"
proof -
  from os_Create_resolve(1) [OF assms(1)] obtain q where "resolve fs2 p = Inr (q, Some (File h))" ..
  with resolve_cong [OF io_Copy_frame(1,2) [OF assms(2)]] show ?thesis by auto
qed

subsection \<open>Writing a file, and reading it back\<close>



lemma io_Copy_reader_error: "\<exists>n e fs'. io_Copy fs h (Stream d (Some err)) = ((n, Some e), fs')"
  by (auto simp: io_Copy_def read_all_def split: option.splits)

lemma ex_contained: "containedPath (Path example_cfg) ''n/m'' = Inr ''/data/backup/n/m''"
  by (simp add: example_cfg_def containedPath_def path_defs)

lemma ex_mkdir: "os_MkdirAll example_fs (filepath_Dir ''/data/backup/n/m'') = Inr example_fs1"
  by (simp add: os_MkdirAll.simps path_defs os_defs example_fs_def example_fs1_def)

lemma ex_create: "os_Create example_fs1 ''/data/backup/n/m'' = Inr (4, example_fs2)"
  by (simp add: path_defs os_defs example_fs_def example_fs1_def example_fs2_def)


lemma ex_copy_fails:
  "io_Copy example_fs2 4 (Stream ''xyz'' (Some (ReadError ''boom''))) =
     ((3, Some (ReadError ''boom'')), example_fs3)"
  by (simp add: io_Copy_def read_all_def example_fs2_def example_fs_def example_fs3_def)

text \<open>
  C3 (as stated).  After a write that fails partway through, a stat of the key is to
  return the not-found error: no half-written file is ever left.  The removal of the
  destination can itself fail, and then only a warning is logged.  In the example the
  base directory may not be written; the file \<open>a\<close> is there already, so it is opened
  and truncated, the reader delivers \<open>xyz\<close> and ends with an error, the removal is
  refused, and the key is left holding the three bytes.
\<close>

theorem PutFile_failed_copy_counterexample:
  "fst (PutFile example_cfg example_ro ''a'' (Stream ''xyz'' (Some (ReadError ''boom''))) 3)
     = Some (ReadError ''boom'')
   \<and> StatFile example_cfg
        (snd (PutFile example_cfg example_ro ''a'' (Stream ''xyz'' (Some (ReadError ''boom''))) 3))
        ''a'' = Inr \<lparr>Size = 3, LastModified = 10, Name = ''a''\<rparr>
   \<and> StatFile example_cfg example_ro ''a'' = Inr \<lparr>Size = 5, LastModified = 1, Name = ''a''\<rparr>"
  by (simp add: PutFile_def PutFileAbsolute_def StatFile_def StatFileAbsolute_def containedPath_def
        example_cfg_def example_ro_def example_fs_def os_MkdirAll.simps path_defs os_defs)

text \<open>
  C3 (amended).  When create-for-write has resolved the key, made the parent
  directories and created the destination, and the copy into it then fails (the reader
  ends with an error, or a write fails), the operation returns the copy's error and
  tries to remove the destination.  When the removal succeeds, a stat of the same key on
  the file system that is left returns the not-found error.  When the removal fails,
  which it does exactly when the directory of the destination may not be written, the
  file system is left as the copy left it, and a stat of the key succeeds with the
  number of bytes written as the size.  (A reader that ends with an error always makes
  the copy fail: \<open>io_Copy_reader_error\<close>.)
\<close>

theorem PutFile_failed_copy_removes_destination:
  assumes "containedPath (Path l) key = Inr absPath"
    and "os_MkdirAll fs (filepath_Dir absPath) = Inr fs1"
    and "os_Create fs1 absPath = Inr (dst, fs2)"
    and "io_Copy fs2 dst r = ((n, Some err), fs3)"
  shows "fst (PutFile l fs key r localSize) = Some err
       \<and> (case os_Remove fs3 absPath of
            Inr fs4 \<Rightarrow> snd (PutFile l fs key r localSize) = fs4
                       \<and> StatFile l fs4 key = Inl ErrNotFound
          | Inl removeErr \<Rightarrow> snd (PutFile l fs key r localSize) = fs3
                       \<and> (\<exists>f. StatFile l fs3 key = Inr f \<and> Size f = n))
       \<and> (\<exists>q. resolve fs3 absPath = Inr (q, Some (File dst))
              \<and> os_Remove fs3 absPath =
                  (if readonly fs3 (butlast q) then Inl EACCES
                   else Inr (fs3\<lparr>root := del (root fs3) q\<rparr>)))"
proof -
  from create_copy_resolve [OF assms(3,4)] obtain q where
    r3: "resolve fs3 absPath = Inr (q, Some (File dst))" ..
  note rm = os_Remove_file(1) [OF r3]
  note r4 = os_Remove_file(2) [OF r3]
  have a: "fst (PutFile l fs key r localSize) = Some err"
    using assms by (simp add: PutFile_def PutFileAbsolute_def split: sum.splits)
  have b: "snd (PutFile l fs key r localSize) = fs3
           \<and> (\<exists>f. StatFile l fs3 key = Inr f \<and> Size f = n)"
    if "os_Remove fs3 absPath = Inl removeErr" for removeErr
  proof -
    have "snd (PutFile l fs key r localSize) = fs3"
      using assms that by (simp add: PutFile_def PutFileAbsolute_def)
    moreover have "\<exists>f. StatFile l fs3 key = Inr f \<and> Size f = n"
      using os_Stat_file [OF r3] io_Copy_written [OF assms(4)] assms(1)
      by (simp add: StatFile_def StatFileAbsolute_def)
    ultimately show ?thesis by simp
  qed
  have c: "snd (PutFile l fs key r localSize) = fs4 \<and> StatFile l fs4 key = Inl ErrNotFound"
    if "os_Remove fs3 absPath = Inr fs4" for fs4
  proof -
    have "snd (PutFile l fs key r localSize) = fs4"
      using assms that by (simp add: PutFile_def PutFileAbsolute_def)
    moreover from that rm have "fs4 = fs3\<lparr>root := del (root fs3) q\<rparr>"
      by (simp split: if_splits)
    with r4 have "resolve fs4 absPath = Inr (q, None)" by simp
    then have "StatFile l fs4 key = Inl ErrNotFound"
      using assms(1) by (simp add: StatFile_def StatFileAbsolute_def os_Stat_def os_IsNotExist_def)
    ultimately show ?thesis by simp
  qed
  from b c have "case os_Remove fs3 absPath of
            Inr fs4 \<Rightarrow> snd (PutFile l fs key r localSize) = fs4
                       \<and> StatFile l fs4 key = Inl ErrNotFound
          | Inl removeErr \<Rightarrow> snd (PutFile l fs key r localSize) = fs3
                       \<and> (\<exists>f. StatFile l fs3 key = Inr f \<and> Size f = n)"
    by (cases "os_Remove fs3 absPath") simp_all
  with a r3 rm show ?thesis by blast
qed

theorem PutFile_failed_copy_removes_destination_witness:
  "containedPath (Path example_cfg) ''n/m'' = Inr ''/data/backup/n/m''
   \<and> os_MkdirAll example_fs (filepath_Dir ''/data/backup/n/m'') = Inr example_fs1
   \<and> os_Create example_fs1 ''/data/backup/n/m'' = Inr (4, example_fs2)
   \<and> io_Copy example_fs2 4 (Stream ''xyz'' (Some (ReadError ''boom''))) =
       ((3, Some (ReadError ''boom'')), example_fs3)
   \<and> (\<exists>fs4. os_Remove example_fs3 ''/data/backup/n/m'' = Inr fs4)
   \<and> fst (PutFile example_cfg example_fs ''n/m'' (Stream ''xyz'' (Some (ReadError ''boom''))) 3)
       = Some (ReadError ''boom'')
   \<and> StatFile example_cfg
        (snd (PutFile example_cfg example_fs ''n/m'' (Stream ''xyz'' (Some (ReadError ''boom''))) 3))
        ''n/m'' = Inl ErrNotFound"
proof -
  have rm: "\<exists>fs4. os_Remove example_fs3 ''/data/backup/n/m'' = Inr fs4"
    by (simp add: path_defs os_defs example_fs_def example_fs2_def example_fs3_def)
  from PutFile_failed_copy_removes_destination [OF ex_contained ex_mkdir ex_create ex_copy_fails, of 3]
    rm
  have "fst (PutFile example_cfg example_fs ''n/m'' (Stream ''xyz'' (Some (ReadError ''boom''))) 3)
       = Some (ReadError ''boom'')
   \<and> StatFile example_cfg
        (snd (PutFile example_cfg example_fs ''n/m'' (Stream ''xyz'' (Some (ReadError ''boom''))) 3))
        ''n/m'' = Inl ErrNotFound"
    by (auto split: sum.splits)
  with ex_contained ex_mkdir ex_create ex_copy_fails rm show ?thesis by blast
qed









subsection \<open>Hard link first, byte copy second\<close>

lemma io_Copy_files_other:
  assumes "io_Copy fs h r = (x, fs')" and "k \<noteq> h"
  shows "files fs' k = files fs k"
  using assms
  by (auto simp: io_Copy_def split: prod.splits option.splits if_splits)

text \<open>
  When the hard link succeeds, the result is the source size the caller gave, on the
  file system the link left.
\<close>

lemma CopyObject_link_succeeds:
  assumes "os_MkdirAll fs (filepath_Dir (path_Join [ObjectDiskPath l, dstKey])) = Inr fs1"
    and "os_Link fs1 (path_Join [Path l, srcKey]) (path_Join [ObjectDiskPath l, dstKey]) = Inr fs2"
  shows "CopyObject l fs srcSize srcBucket srcKey dstKey = (Inr srcSize, fs2)"
  using assms by (simp add: CopyObject_def)

text \<open>
  When the hard link fails and the operation succeeds all the same, the source is a
  regular file and the destination is one afterwards.  If they are two files, the
  destination holds the bytes the source held before the call, the count returned is
  their number, and the source is unchanged.  If they are one file, the count is 0 and
  the file is empty.
\<close>

lemma CopyObject_copies_source_bytes:
  assumes mk: "os_MkdirAll fs (filepath_Dir (path_Join [ObjectDiskPath l, dstKey])) = Inr fs1"
    and lk: "os_Link fs1 (path_Join [Path l, srcKey]) (path_Join [ObjectDiskPath l, dstKey])
               = Inl linkErr"
    and ok: "CopyObject l fs srcSize srcBucket srcKey dstKey = (Inr n, fs')"
  shows "\<exists>qs i qd j.
           resolve fs1 (path_Join [Path l, srcKey]) = Inr (qs, Some (File i))
         \<and> resolve fs' (path_Join [ObjectDiskPath l, dstKey]) = Inr (qd, Some (File j))
         \<and> (if j = i then n = 0 \<and> fst (files fs' i) = []
            else n = int (length (fst (files fs i)))
                 \<and> fst (files fs' j) = fst (files fs i)
                 \<and> fst (files fs' i) = fst (files fs i))"
proof -
  define srcPath where "srcPath = path_Join [Path l, srcKey]"
  define dstPath where "dstPath = path_Join [ObjectDiskPath l, dstKey]"
  from ok mk lk obtain src j fs2 where
    op: "os_Open fs1 srcPath = Inr src"
    and cr: "os_Create fs1 dstPath = Inr (j, fs2)"
    and io: "io_Copy fs2 j src = ((n, None), fs')"
    unfolding srcPath_def dstPath_def
    by (auto simp: CopyObject_def Let_def split: sum.splits prod.splits option.splits)
  from io_Copy_frame(3) [OF io] have
    w: "fst (files fs' j) = fst (read_all fs2 src)"
    and n: "n = int (length (fst (read_all fs2 src)))"
    and e: "snd (read_all fs2 src) = None"
    by simp_all
  from e have nd: "src \<noteq> DirHandle" by (auto simp: read_all_def)
  with op obtain qs i where rs: "resolve fs1 srcPath = Inr (qs, Some (File i))"
    and src: "src = Handle i"
    by (auto simp: os_Open_def split: sum.splits option.splits node.splits)
  from create_copy_resolve [OF cr io] obtain qd where
    rd: "resolve fs' dstPath = Inr (qd, Some (File j))" ..
  have f2: "files fs2 = (files fs)(j := ([], clock fs1))"
    using os_Create_files [OF cr] os_MkdirAll_files [OF mk] by simp
  have "if j = i then n = 0 \<and> fst (files fs' i) = []
        else n = int (length (fst (files fs i)))
             \<and> fst (files fs' j) = fst (files fs i)
             \<and> fst (files fs' i) = fst (files fs i)"
  proof (cases "j = i")
    case True
    with w n f2 src show ?thesis by (simp add: read_all_def)
  next
    case False
    then have "i \<noteq> j" by simp
    from io_Copy_files_other [OF io this] f2 False have "files fs' i = files fs i" by simp
    with w n f2 src False show ?thesis by (simp add: read_all_def)
  qed
  with rs rd show ?thesis unfolding srcPath_def dstPath_def by blast
qed

lemma ex_copy_first:
  "CopyObject example_cfg example_fs 5 ''bucket'' ''a'' ''x/y''
     = (Inr 5, example_fs\<lparr>root := od_root [(''y'', File 1)]\<rparr>)"
proof -
  have m: "os_MkdirAll example_fs (filepath_Dir (path_Join [ObjectDiskPath example_cfg, ''x/y'']))
             = Inr (example_fs\<lparr>root := od_root []\<rparr>)"
    by (simp add: os_MkdirAll.simps path_defs os_defs example_cfg_def example_fs_def od_root_def)
  have l: "os_Link (example_fs\<lparr>root := od_root []\<rparr>) (path_Join [Path example_cfg, ''a''])
             (path_Join [ObjectDiskPath example_cfg, ''x/y''])
       = Inr (example_fs\<lparr>root := od_root [(''y'', File 1)]\<rparr>)"
    by (simp add: path_defs os_defs example_cfg_def example_fs_def od_root_def)
  from m l show ?thesis by (rule CopyObject_link_succeeds)
qed

lemma ex_copy_xdev:
  "fst (CopyObject example_cfg example_xdev 99 ''bucket'' ''a'' ''x/y'') = Inr 5
   \<and> StatFileAbsolute (snd (CopyObject example_cfg example_xdev 99 ''bucket'' ''a'' ''x/y''))
        ''/data/od/x/y'' = Inr \<lparr>Size = 5, LastModified = 10, Name = ''y''\<rparr>
   \<and> StatFile example_cfg (snd (CopyObject example_cfg example_xdev 99 ''bucket'' ''a'' ''x/y''))
        ''a'' = Inr \<lparr>Size = 5, LastModified = 1, Name = ''a''\<rparr>"
  by (simp add: CopyObject_def StatFile_def StatFileAbsolute_def containedPath_def
        os_MkdirAll.simps path_defs os_defs example_cfg_def example_fs_def example_xdev_def)

text \<open>
  C6.  \<open>CopyObject\<close> is to try the hard link first and, when that fails for any
  reason, to make a full byte copy of the source and return the number of bytes
  transferred.  It does when source and destination are two files
  (\<open>CopyObject_link_succeeds\<close>, \<open>CopyObject_copies_source_bytes\<close>).  It does not
  when the destination is already a name of the source file, as it is after an earlier
  call with the same keys has made the link: the link then fails because the
  destination exists, and the copy opens the source, truncates the destination, which
  is the same file, and has nothing left to copy.  In the example the first call
  returns the size 5 it was given and leaves \<open>a\<close> with its 5 bytes; the second call
  returns 0 without an error and leaves \<open>a\<close> and the destination empty.
\<close>

theorem CopyObject_second_call_empties_source:
  "fst (CopyObject example_cfg example_fs 5 ''bucket'' ''a'' ''x/y'') = Inr 5
   \<and> StatFile example_cfg (snd (CopyObject example_cfg example_fs 5 ''bucket'' ''a'' ''x/y'')) ''a''
       = Inr \<lparr>Size = 5, LastModified = 1, Name = ''a''\<rparr>
   \<and> os_Link (snd (CopyObject example_cfg example_fs 5 ''bucket'' ''a'' ''x/y''))
        ''/data/backup/a'' ''/data/od/x/y'' = Inl EEXIST
   \<and> fst (CopyObject example_cfg
             (snd (CopyObject example_cfg example_fs 5 ''bucket'' ''a'' ''x/y''))
             5 ''bucket'' ''a'' ''x/y'') = Inr 0
   \<and> StatFile example_cfg
        (snd (CopyObject example_cfg
                (snd (CopyObject example_cfg example_fs 5 ''bucket'' ''a'' ''x/y''))
                5 ''bucket'' ''a'' ''x/y'')) ''a''
       = Inr \<lparr>Size = 0, LastModified = 10, Name = ''a''\<rparr>
   \<and> StatFileAbsolute
        (snd (CopyObject example_cfg
                (snd (CopyObject example_cfg example_fs 5 ''bucket'' ''a'' ''x/y''))
                5 ''bucket'' ''a'' ''x/y'')) ''/data/od/x/y''
       = Inr \<lparr>Size = 0, LastModified = 10, Name = ''y''\<rparr>"
  unfolding ex_copy_first fst_conv snd_conv
  by (simp add: CopyObject_def StatFile_def StatFileAbsolute_def containedPath_def
        os_MkdirAll.simps path_defs os_defs example_cfg_def example_fs_def od_root_def)

text \<open>
  C7.  \<open>CopyObject\<close> uses its keys only through the two joins, with the primary base
  and with the object-disk path: two calls whose joins agree do the same, so a key with
  \<open>..\<close> elements acts like a key of the tree it points into; and no call returns
  the escape error.
\<close>

theorem CopyObject_joins_without_guard:
  assumes "path_Join [Path l, srcKey] = path_Join [Path l', srcKey']"
    and "path_Join [ObjectDiskPath l, dstKey] = path_Join [ObjectDiskPath l', dstKey']"
  shows "CopyObject l fs srcSize srcBucket srcKey dstKey
           = CopyObject l' fs srcSize srcBucket' srcKey' dstKey'
       \<and> (\<forall>k b. fst (CopyObject l fs srcSize srcBucket srcKey dstKey) \<noteq> Inl (PathEscape k b))"
proof -
  have "fst (CopyObject l fs srcSize srcBucket srcKey dstKey) \<noteq> Inl (PathEscape k b)" for k b
    by (auto simp: CopyObject_def Let_def os_Open_def io_Copy_def read_all_def
             split: sum.splits prod.splits option.splits node.splits if_splits reader.splits)
  moreover have "CopyObject l fs srcSize srcBucket srcKey dstKey
           = CopyObject l' fs srcSize srcBucket' srcKey' dstKey'"
    unfolding CopyObject_def assms ..
  ultimately show ?thesis by blast
qed

theorem CopyObject_joins_without_guard_witness:
  "path_Join [Path example_cfg, ''../other/s''] = path_Join [Path outside_cfg, ''s'']
   \<and> path_Join [ObjectDiskPath example_cfg, ''../out/y''] = path_Join [ObjectDiskPath outside_cfg, ''y'']
   \<and> containedPath (Path example_cfg) ''../other/s'' = Inl (PathEscape ''../other/s'' ''/data/backup'')
   \<and> containedPath (ObjectDiskPath example_cfg) ''../out/y'' = Inl (PathEscape ''../out/y'' ''/data/od'')
   \<and> CopyObject example_cfg example_fs 6 ''bucket'' ''../other/s'' ''../out/y''
       = CopyObject outside_cfg example_fs 6 ''bucket'' ''s'' ''y''
   \<and> fst (CopyObject example_cfg example_fs 6 ''bucket'' ''../other/s'' ''../out/y'') = Inr 6
   \<and> root (snd (CopyObject example_cfg example_fs 6 ''bucket'' ''../other/s'' ''../out/y''))
       = Dir [(''data'',
               Dir [(''backup'', Dir [(''a'', File 1), (''sub'', Dir [(''b'', File 2)] 0)] 0),
                    (''other'', Dir [(''s'', File 3)] 0),
                    (''out'', Dir [(''y'', File 3)] 10)] 0)] 0"
proof -
  have j1: "path_Join [Path example_cfg, ''../other/s''] = path_Join [Path outside_cfg, ''s'']"
    and j2: "path_Join [ObjectDiskPath example_cfg, ''../out/y''] = path_Join [ObjectDiskPath outside_cfg, ''y'']"
    by (simp_all add: example_cfg_def outside_cfg_def path_defs)
  have c1: "containedPath (Path example_cfg) ''../other/s'' = Inl (PathEscape ''../other/s'' ''/data/backup'')"
    and c2: "containedPath (ObjectDiskPath example_cfg) ''../out/y'' = Inl (PathEscape ''../out/y'' ''/data/od'')"
    by (simp_all add: example_cfg_def containedPath_def path_defs)
  have r: "fst (CopyObject example_cfg example_fs 6 ''bucket'' ''../other/s'' ''../out/y'') = Inr 6"
    by (simp add: example_cfg_def example_fs_def CopyObject_def os_MkdirAll.simps path_defs os_defs)
  have t: "root (snd (CopyObject example_cfg example_fs 6 ''bucket'' ''../other/s'' ''../out/y''))
       = Dir [(''data'',
               Dir [(''backup'', Dir [(''a'', File 1), (''sub'', Dir [(''b'', File 2)] 0)] 0),
                    (''other'', Dir [(''s'', File 3)] 0),
                    (''out'', Dir [(''y'', File 3)] 10)] 0)] 0"
    by (simp add: example_cfg_def example_fs_def CopyObject_def os_MkdirAll.simps path_defs os_defs)
  from CopyObject_joins_without_guard [OF j1 j2, of example_fs 6 "''bucket''" "''bucket''"]
    j1 j2 c1 c2 r t
  show ?thesis by simp
qed

subsection \<open>Recursive enumeration\<close>






lemma lookup_Dir_Cons_other:
  "c \<noteq> name \<Longrightarrow> lookup (Dir ((name, child) # rest) t) (c # cs) = lookup (Dir rest t) (c # cs)"
  by simp























end
